theory Spec2Isabelle
  imports Main
begin

section \<open>Data model of solution.cpp\<close>

text \<open>
  The program decides, for a postfix regular expression over \<open>a\<close>, \<open>b\<close>, \<open>c\<close> and the
  epsilon symbol \<open>1\<close>, the length of the longest substring of a word that occurs inside
  some string of the expression's language.

  Conventions of the embedding:
  \<^item> \<open>ulong\<close> values (lengths, loop counters) are \<open>nat\<close>.  Every counter is bounded by
    \<open>2 * length word + 2\<close>, which cannot wrap for a string that fits in memory.
  \<^item> \<open>std::vector<int>\<close> tables hold only the values 0 and 1 (every write is \<open>true\<close>,
    the result of \<open>&&\<close>, or a copy of such an entry), so they are \<open>bool list\<close>.
  \<^item> a \<open>throw\<close> is \<open>Inl (ParseException msg)\<close>, a failed \<open>assert\<close> is
    \<open>Inl AssertionFailure\<close>.
  \<^item> \<open>v[i] = x\<close> is \<open>v[i := x]\<close>; all writes of the program are in range for operands
    whose vectors have \<open>wordLength + 1\<close> entries, which is what the constructors build.
\<close>

definition EPSILON :: char where
  "EPSILON = CHR ''1''"

datatype error = ParseException string | AssertionFailure

datatype OperatorType = PLUS | MULTIPLY | KLEENE_STAR

record Operand =
  containsSubstring :: "bool list list"
  containsEpsilon :: bool
  containsWordAsSubstring :: bool
  containsSuffixEqualsToPrefix :: "bool list"
  containsPrefixEqualsToSuffix :: "bool list"
  wordLength :: nat

text \<open>\<open>t[i][j] |= b\<close> on a two-dimensional table.\<close>

definition orAt :: "bool list list \<Rightarrow> nat \<Rightarrow> nat \<Rightarrow> bool \<Rightarrow> bool list list" where
  "orAt t i j b = t[i := (t ! i)[j := (t ! i ! j \<or> b)]]"

subsection \<open>Constructors\<close>

text \<open>\<open>Operand(ulong wordLength)\<close>: the empty language.\<close>

definition Operand_ulong :: "nat \<Rightarrow> Operand" where
  "Operand_ulong n =
     \<lparr> containsSubstring = replicate (n + 1) (replicate (n + 1) False),
       containsEpsilon = False,
       containsWordAsSubstring = False,
       containsSuffixEqualsToPrefix = replicate (n + 1) False,
       containsPrefixEqualsToSuffix = replicate (n + 1) False,
       wordLength = n \<rparr>"

text \<open>
  \<open>Operand(char character, const string &word)\<close>: the language of one symbol.  The
  evaluator calls it with a non-epsilon character only after \<open>checkWord\<close> accepted the
  word, so \<open>word ! 0\<close> and \<open>last word\<close> are read on a non-empty word.
\<close>

definition Operand_char :: "char \<Rightarrow> string \<Rightarrow> Operand" where
  "Operand_char character word =
     (let this = \<lparr> containsSubstring =
                     replicate (length word + 1) (replicate (length word + 1) False),
                   containsEpsilon = False,
                   containsWordAsSubstring = False,
                   containsSuffixEqualsToPrefix = replicate (length word + 1) False,
                   containsPrefixEqualsToSuffix = replicate (length word + 1) False,
                   wordLength = length word \<rparr>
      in if character = EPSILON then
           this\<lparr> containsEpsilon := True, containsWordAsSubstring := False \<rparr>
         else
           (let this = this\<lparr> containsEpsilon := False \<rparr>;
                this = (if length word = 1
                        then this\<lparr> containsWordAsSubstring := (word ! 0 = character) \<rparr>
                        else this\<lparr> containsWordAsSubstring := False \<rparr>);
                this = (if word ! 0 = character
                        then this\<lparr> containsSuffixEqualsToPrefix :=
                                     (containsSuffixEqualsToPrefix this)[1 := True] \<rparr>
                        else this);
                this = (if last word = character
                        then this\<lparr> containsPrefixEqualsToSuffix :=
                                     (containsPrefixEqualsToSuffix this)[1 := True] \<rparr>
                        else this)
            in fold (\<lambda>startPosition this.
                       if character = word ! startPosition
                       then this\<lparr> containsSubstring :=
                                    (containsSubstring this)
                                      [startPosition :=
                                         (containsSubstring this ! startPosition)[1 := True]] \<rparr>
                       else this)
                    [0..<wordLength this] this))"

definition isWordEqualToSomeSubstringInLanguage :: "Operand \<Rightarrow> bool" where
  "isWordEqualToSomeSubstringInLanguage this = containsWordAsSubstring this"

subsection \<open>Concatenation\<close>

text \<open>
  \<open>updateContainsSubstringForMultiply\<close>.  The three nested \<open>for\<close> loops are three
  nested folds over the ranges the loop headers describe; the two \<open>continue\<close> branches
  are the first two cases of the conditional.  The pair \<open>prefixLength++; prefixLength--\<close>
  has no effect.
\<close>

definition updateContainsSubstringForMultiply ::
  "Operand \<Rightarrow> Operand \<Rightarrow> Operand \<Rightarrow> Operand \<Rightarrow> Operand" where
  "updateContainsSubstringForMultiply this result left right =
     (let result =
        fold (\<lambda>startPosition.
          fold (\<lambda>len.
            fold (\<lambda>prefixLength result.
              let suffixLength = len - prefixLength in
              if prefixLength = 0 then
                (if containsEpsilon left
                 then result\<lparr> containsSubstring :=
                        orAt (containsSubstring result) startPosition len
                          (containsSubstring right ! startPosition ! len) \<rparr>
                 else result)
              else if suffixLength = 0 then
                (if containsEpsilon right
                 then result\<lparr> containsSubstring :=
                        orAt (containsSubstring result) startPosition len
                          (containsSubstring left ! startPosition ! len) \<rparr>
                 else result)
              else
                result\<lparr> containsSubstring :=
                  orAt (containsSubstring result) startPosition len
                    (containsSubstring left ! startPosition ! prefixLength \<and>
                     containsSubstring right ! (startPosition + prefixLength) ! suffixLength) \<rparr>)
            [0..<len + 1])
          [1..<wordLength this - startPosition + 1])
        [0..<wordLength this] result
      in result\<lparr> containsEpsilon := containsEpsilon left \<and> containsEpsilon right \<rparr>)"

text \<open>
  \<open>updateContainsWordAsSubstringForMultiply\<close>.  The \<open>assert\<close> inside the first loop
  (\<open>0 < suffixLength < wordLength\<close>) holds for every \<open>1 \<le> prefixLength < wordLength\<close>
  and is therefore not a branch of the model.
\<close>

definition updateContainsWordAsSubstringForMultiply ::
  "Operand \<Rightarrow> Operand \<Rightarrow> Operand \<Rightarrow> Operand \<Rightarrow> Operand" where
  "updateContainsWordAsSubstringForMultiply this result left right =
     (let result = result\<lparr> containsWordAsSubstring :=
                      containsWordAsSubstring left \<or> containsWordAsSubstring right \<rparr>;
          result =
            fold (\<lambda>prefixLength result.
                    let suffixLength = wordLength this - prefixLength in
                    result\<lparr> containsWordAsSubstring :=
                      containsWordAsSubstring result \<or>
                      (containsSuffixEqualsToPrefix left ! prefixLength \<and>
                       containsPrefixEqualsToSuffix right ! suffixLength) \<rparr>)
                 [1..<wordLength this] result;
          result =
            fold (\<lambda>prefixLength result.
                    let result = result\<lparr> containsSuffixEqualsToPrefix :=
                          (containsSuffixEqualsToPrefix result)
                            [prefixLength := containsSuffixEqualsToPrefix right ! prefixLength] \<rparr>;
                        result = result\<lparr> containsSuffixEqualsToPrefix :=
                          (containsSuffixEqualsToPrefix result)
                            [prefixLength :=
                               (containsSuffixEqualsToPrefix result ! prefixLength \<or>
                                (containsSuffixEqualsToPrefix left ! prefixLength \<and>
                                 containsEpsilon right))] \<rparr>
                    in fold (\<lambda>subPrefixLength result.
                               let suffixOfPrefixLength = prefixLength - subPrefixLength in
                               result\<lparr> containsSuffixEqualsToPrefix :=
                                 (containsSuffixEqualsToPrefix result)
                                   [prefixLength :=
                                      (containsSuffixEqualsToPrefix result ! prefixLength \<or>
                                       (containsSubstring right ! subPrefixLength
                                          ! suffixOfPrefixLength \<and>
                                        containsSuffixEqualsToPrefix left ! subPrefixLength))] \<rparr>)
                            [1..<prefixLength] result)
                 [1..<wordLength this] result;
          result =
            fold (\<lambda>suffixLength result.
                    let result = result\<lparr> containsPrefixEqualsToSuffix :=
                          (containsPrefixEqualsToSuffix result)
                            [suffixLength := containsPrefixEqualsToSuffix left ! suffixLength] \<rparr>;
                        result = result\<lparr> containsPrefixEqualsToSuffix :=
                          (containsPrefixEqualsToSuffix result)
                            [suffixLength :=
                               (containsPrefixEqualsToSuffix result ! suffixLength \<or>
                                (containsEpsilon left \<and>
                                 containsPrefixEqualsToSuffix right ! suffixLength))] \<rparr>
                    in fold (\<lambda>subSuffixLength result.
                               let prefixOfSuffixLength = suffixLength - subSuffixLength in
                               result\<lparr> containsPrefixEqualsToSuffix :=
                                 (containsPrefixEqualsToSuffix result)
                                   [suffixLength :=
                                      (containsPrefixEqualsToSuffix result ! suffixLength \<or>
                                       (containsSubstring left ! (wordLength this - suffixLength)
                                          ! prefixOfSuffixLength \<and>
                                        containsPrefixEqualsToSuffix right ! subSuffixLength))] \<rparr>)
                            [1..<suffixLength] result)
                 [1..<wordLength this] result
      in result)"

text \<open>\<open>Operand::operator*\<close>: \<open>this\<close> is the left factor.\<close>

definition Operand_times :: "Operand \<Rightarrow> Operand \<Rightarrow> Operand" where
  "Operand_times this right =
     (let left = this;
          result = Operand_ulong (wordLength this);
          result = updateContainsSubstringForMultiply this result left right;
          result = updateContainsWordAsSubstringForMultiply this result left right
      in result)"

subsection \<open>Union\<close>

text \<open>
  \<open>Operand::operator+\<close>.  \<open>Operand_plus_fields\<close> is the body up to the \<open>assert\<close>;
  \<open>Operand_plus\<close> adds the \<open>assert\<close> on the two word lengths, which sits after the
  loops and aborts the program when it fails.
\<close>

definition Operand_plus_fields :: "Operand \<Rightarrow> Operand \<Rightarrow> Operand" where
  "Operand_plus_fields this right =
     (let left = this;
          left =
            fold (\<lambda>startPosition.
              fold (\<lambda>len left.
                      left\<lparr> containsSubstring :=
                        orAt (containsSubstring left) startPosition len
                          (containsSubstring right ! startPosition ! len) \<rparr>)
                   [0..<wordLength this - startPosition + 1])
              [0..<wordLength this] left;
          left =
            fold (\<lambda>len left.
                    let left = left\<lparr> containsSuffixEqualsToPrefix :=
                          (containsSuffixEqualsToPrefix left)
                            [len := (containsSuffixEqualsToPrefix left ! len \<or>
                                     containsSuffixEqualsToPrefix right ! len)] \<rparr>
                    in left\<lparr> containsPrefixEqualsToSuffix :=
                          (containsPrefixEqualsToSuffix left)
                            [len := (containsPrefixEqualsToSuffix left ! len \<or>
                                     containsPrefixEqualsToSuffix right ! len)] \<rparr>)
                 [1..<wordLength this + 1] left;
          left = left\<lparr> containsEpsilon := containsEpsilon left \<or> containsEpsilon right \<rparr>;
          left = left\<lparr> containsWordAsSubstring :=
                   containsWordAsSubstring left \<or> containsWordAsSubstring right \<rparr>
      in left)"

definition Operand_plus :: "Operand \<Rightarrow> Operand \<Rightarrow> error + Operand" where
  "Operand_plus this right =
     (let left = Operand_plus_fields this right
      in if wordLength left = wordLength right then Inr left else Inl AssertionFailure)"

section \<open>Expression evaluator\<close>

text \<open>
  \<open>struct Expression\<close>: the postfix text and the stack of operands (the head of the list
  is the top of the stack).
\<close>

record Expression =
  operands :: "Operand list"
  expression :: string

definition isOperator :: "char \<Rightarrow> bool" where
  "isOperator character = (character \<in> {CHR ''+'', CHR ''.'', CHR ''*''})"

definition isSymbolOfAlphabet :: "char \<Rightarrow> bool" where
  "isSymbolOfAlphabet character = (character \<in> {CHR ''a'', CHR ''b'', CHR ''c'', EPSILON})"

text \<open>\<open>checkWord\<close>: the range-for loop stops at the first offending character.\<close>

fun checkWordLoop :: "string \<Rightarrow> error + unit" where
  "checkWordLoop [] = Inr ()"
| "checkWordLoop (element # rest) =
     (if element = EPSILON \<or> \<not> isSymbolOfAlphabet element
      then Inl (ParseException (''Unknown symbol in word: '' @ [element]))
      else checkWordLoop rest)"

definition checkWord :: "string \<Rightarrow> error + unit" where
  "checkWord word =
     (if word = [] then Inl (ParseException ''Word is empty'') else checkWordLoop word)"

definition operatorCode :: "char \<Rightarrow> error + OperatorType" where
  "operatorCode character =
     (if character = CHR ''+'' then Inr PLUS
      else if character = CHR ''.'' then Inr MULTIPLY
      else if character = CHR ''*'' then Inr KLEENE_STAR
      else Inl (ParseException (''Unknown operator symbol: '' @ [character])))"

text \<open>
  The \<open>for\<close> loop of \<open>calculateKleeneStar\<close>; the first argument counts the iterations
  that remain.
\<close>

fun kleeneLoop :: "nat \<Rightarrow> Operand \<Rightarrow> Operand \<Rightarrow> Operand \<Rightarrow> error + Operand" where
  "kleeneLoop 0 startOperand currentPow currentOperand = Inr currentOperand"
| "kleeneLoop (Suc n) startOperand currentPow currentOperand =
     (let nextPow = Operand_times currentPow startOperand
      in case Operand_plus currentOperand nextPow of
           Inl e \<Rightarrow> Inl e
         | Inr nextOperand \<Rightarrow> kleeneLoop n startOperand nextPow nextOperand)"

definition calculateKleeneStar :: "string \<Rightarrow> Operand list \<Rightarrow> error + Operand list" where
  "calculateKleeneStar word stack =
     (if length stack < 1 then Inl (ParseException ''Missing operands'')
      else
        (let currentPow = Operand_char EPSILON word;
             startOperand = hd stack;
             stack = tl stack;
             currentOperand = currentPow
         in case kleeneLoop (2 * length word + 2) startOperand currentPow currentOperand of
              Inl e \<Rightarrow> Inl e
            | Inr currentOperand \<Rightarrow> Inr (currentOperand # stack)))"

definition calculateOperator ::
  "string \<Rightarrow> OperatorType \<Rightarrow> Operand list \<Rightarrow> error + Operand list" where
  "calculateOperator word currentOperator stack =
     (if currentOperator = KLEENE_STAR then calculateKleeneStar word stack
      else if length stack < 2 then Inl (ParseException ''Missing operands'')
      else
        (let right = hd stack;
             stack = tl stack;
             left = hd stack;
             stack = tl stack
         in if currentOperator = PLUS
            then (case Operand_plus left right of
                    Inl e \<Rightarrow> Inl e
                  | Inr v \<Rightarrow> Inr (v # stack))
            else Inr (Operand_times left right # stack)))"

text \<open>
  The token loop of \<open>calculateValueOfExpression\<close>, on the rest of the text.  The
  methods of \<open>Expression\<close> change only its stack, which the model passes along; the
  evaluated copy is discarded by the caller, so \<open>calculateValueOfExpression\<close> returns
  the resulting operand alone.
\<close>

fun evalLoop :: "string \<Rightarrow> string \<Rightarrow> Operand list \<Rightarrow> error + Operand list" where
  "evalLoop word [] stack = Inr stack"
| "evalLoop word (token # rest) stack =
     (if isOperator token then
        (case operatorCode token of
           Inl e \<Rightarrow> Inl e
         | Inr currentOperator \<Rightarrow>
             (case calculateOperator word currentOperator stack of
                Inl e \<Rightarrow> Inl e
              | Inr stack' \<Rightarrow> evalLoop word rest stack'))
      else if isSymbolOfAlphabet token then
        evalLoop word rest (Operand_char token word # stack)
      else Inl (ParseException (''Unknown symbol in expression: '' @ [token])))"

definition calculateValueOfExpression :: "Expression \<Rightarrow> string \<Rightarrow> error + Operand" where
  "calculateValueOfExpression this word =
     (case checkWord word of
        Inl e \<Rightarrow> Inl e
      | Inr _ \<Rightarrow>
          (case evalLoop word (expression this) (operands this) of
             Inl e \<Rightarrow> Inl e
           | Inr stack \<Rightarrow>
               if length stack > 1 then Inl (ParseException ''Too much operands'')
               else if length stack < 1 then Inl (ParseException ''Missing operands'')
               else Inr (hd stack)))"

text \<open>
  \<open>readExpression\<close> applied to the token read from the input: the stack of the new
  \<open>Expression\<close> is empty.
\<close>

definition readExpression :: "string \<Rightarrow> error + Expression" where
  "readExpression token =
     (if token = [] then Inl (ParseException ''Expression is empty'')
      else Inr \<lparr> operands = [], expression = token \<rparr>)"

section \<open>Outer search\<close>

text \<open>A \<open>for\<close> loop whose body may throw: the first error ends the loop.\<close>

fun forEach :: "'a list \<Rightarrow> ('a \<Rightarrow> 's \<Rightarrow> error + 's) \<Rightarrow> 's \<Rightarrow> error + 's" where
  "forEach [] body s = Inr s"
| "forEach (x # xs) body s =
     (case body x s of Inl e \<Rightarrow> Inl e | Inr s' \<Rightarrow> forEach xs body s')"

text \<open>
  \<open>Solver::solve\<close>, with the two fields of the \<open>Solver\<close> as arguments.  Each trial
  evaluates a copy of the expression on \<open>word.substr(startPosition, length)\<close>.
\<close>

definition solve :: "Expression \<Rightarrow> string \<Rightarrow> error + nat" where
  "solve expr word =
     forEach [0..<length word]
       (\<lambda>startPosition.
          forEach [1..<length word - startPosition + 1]
            (\<lambda>len answer.
               let toCheck = take len (drop startPosition word);
                   bufferExpression = expr
               in case calculateValueOfExpression bufferExpression toCheck of
                    Inl e \<Rightarrow> Inl e
                  | Inr result \<Rightarrow>
                      Inr (if isWordEqualToSomeSubstringInLanguage result
                           then max answer len else answer)))
       0"

section \<open>Definitions used to state the properties\<close>

text \<open>
  An operand whose tables have the sizes the constructors give them for a reference string
  of length \<open>L\<close>: every vector has \<open>L + 1\<close> entries.  All reads and writes of the
  operations are then in range.
\<close>

definition operandFor :: "nat \<Rightarrow> Operand \<Rightarrow> bool" where
  "operandFor L x =
     (wordLength x = L \<and>
      length (containsSubstring x) = L + 1 \<and>
      list_all (\<lambda>row. length row = L + 1) (containsSubstring x) \<and>
      length (containsSuffixEqualsToPrefix x) = L + 1 \<and>
      length (containsPrefixEqualsToSuffix x) = L + 1)"

text \<open>
  The contribution of the split point \<open>k\<close> to the window \<open>(i, len)\<close> in
  \<open>updateContainsSubstringForMultiply\<close>: the three cases of the loop body.
\<close>

definition splitAt :: "Operand \<Rightarrow> Operand \<Rightarrow> nat \<Rightarrow> nat \<Rightarrow> nat \<Rightarrow> bool" where
  "splitAt left right i len k =
     (if k = 0 then containsEpsilon left \<and> containsSubstring right ! i ! len
      else if len - k = 0 then containsEpsilon right \<and> containsSubstring left ! i ! len
      else containsSubstring left ! i ! k \<and> containsSubstring right ! (i + k) ! (len - k))"

text \<open>
  The powers of an operand and their union, as the specification words the Kleene star:
  the power 0 is the epsilon leaf, the power \<open>k + 1\<close> is the power \<open>k\<close> concatenated
  with \<open>e\<close>, and the star is approximated by the union of the powers \<open>0, \<dots>, n\<close>
  (the union being the body of \<open>operator+\<close>).
\<close>

fun opPower :: "Operand \<Rightarrow> string \<Rightarrow> nat \<Rightarrow> Operand" where
  "opPower e word 0 = Operand_char EPSILON word"
| "opPower e word (Suc k) = Operand_times (opPower e word k) e"

fun unionOfPowers :: "Operand \<Rightarrow> string \<Rightarrow> nat \<Rightarrow> Operand" where
  "unionOfPowers e word 0 = opPower e word 0"
| "unionOfPowers e word (Suc n) =
     Operand_plus_fields (unionOfPowers e word n) (opPower e word (Suc n))"

text \<open>
  Two operands agree on every field of the data model for a reference string of length
  \<open>L\<close>: \<open>hasEpsilon\<close>, \<open>matchesWholeW\<close>, \<open>substringTable[i][len]\<close> for
  \<open>0 \<le> i < L\<close>, \<open>1 \<le> len \<le> L - i\<close>, and the two boundary vectors at \<open>1 \<le> p < L\<close>.
\<close>

definition sameFields :: "nat \<Rightarrow> Operand \<Rightarrow> Operand \<Rightarrow> bool" where
  "sameFields L x y =
     (containsEpsilon x = containsEpsilon y \<and>
      containsWordAsSubstring x = containsWordAsSubstring y \<and>
      (\<forall>i\<in>{0..<L}. \<forall>len\<in>{1..L - i}.
         containsSubstring x ! i ! len = containsSubstring y ! i ! len) \<and>
      (\<forall>p\<in>{1..<L}.
         containsSuffixEqualsToPrefix x ! p = containsSuffixEqualsToPrefix y ! p \<and>
         containsPrefixEqualsToSuffix x ! p = containsPrefixEqualsToSuffix y ! p))"

text \<open>
  A well-formed postfix expression, in the words of the specification's error list:
  every token is an alphabet symbol, the epsilon symbol or an operator, no operator finds
  too few operands on the stack, and exactly one operand remains at the end.
  \<open>stackDepth\<close> follows the depth of the stack along the tokens.
\<close>

fun stackDepth :: "string \<Rightarrow> nat \<Rightarrow> nat option" where
  "stackDepth [] d = Some d"
| "stackDepth (token # rest) d =
     (if token = CHR ''+'' \<or> token = CHR ''.'' then
        (if d < 2 then None else stackDepth rest (d - 1))
      else if token = CHR ''*'' then
        (if d < 1 then None else stackDepth rest d)
      else if token \<in> {CHR ''a'', CHR ''b'', CHR ''c'', CHR ''1''} then
        stackDepth rest (d + 1)
      else None)"

definition wellFormedPostfix :: "string \<Rightarrow> bool" where
  "wellFormedPostfix e = (stackDepth e 0 = Some 1)"

text \<open>
  A trial of the outer search on the candidate \<open>w\<close>: the evaluation returns an operand
  and that operand matches the whole reference string.
\<close>

definition trialMatches :: "Expression \<Rightarrow> string \<Rightarrow> bool" where
  "trialMatches ex w =
     (case calculateValueOfExpression ex w of
        Inl e \<Rightarrow> False
      | Inr r \<Rightarrow> isWordEqualToSomeSubstringInLanguage r)"

text \<open>
  The candidates of the outer search in the order \<open>Solver::solve\<close> enumerates them:
  start positions ascending, and for each start the lengths ascending.
\<close>

definition trials :: "string \<Rightarrow> string list" where
  "trials word =
     concat (map (\<lambda>startPosition.
                    map (\<lambda>len. take len (drop startPosition word))
                        [1..<length word - startPosition + 1])
                 [0..<length word])"

section \<open>Table updates\<close>

lemma orAt_False [simp]: "orAt t i j False = t"
  by (simp add: orAt_def)

lemma orAt_orAt [simp]: "orAt (orAt t i j a) i j b = orAt t i j (a \<or> b)"
  by (cases "i < length t"; cases "j < length (t ! i)")
     (auto simp: orAt_def list_update_beyond not_less)

lemma length_orAt [simp]: "length (orAt t i j b) = length t"
  by (simp add: orAt_def)

lemma nth_orAt:
  "orAt t i j b ! i' ! j' =
     (if i' = i \<and> j' = j \<and> i < length t \<and> j < length (t ! i) then t ! i ! j \<or> b
      else t ! i' ! j')"
  by (cases "i < length t"; cases "i' = i"; cases "j' = j"; cases "j < length (t ! i)")
     (auto simp: orAt_def list_update_beyond not_less nth_list_update)

lemma length_nth_orAt [simp]: "length (orAt t i j b ! i') = length (t ! i')"
  by (cases "i < length t"; cases "i' = i")
     (auto simp: orAt_def list_update_beyond not_less nth_list_update)

lemma upd_upd_or: "(v[p := a])[p := (v[p := a] ! p \<or> b)] = v[p := (a \<or> b)]"
  by (cases "p < length v") (auto simp: list_update_beyond not_less)

lemma upd_or_or: "v[p := (v[p := a] ! p \<or> b)] = v[p := (a \<or> b)]"
  by (cases "p < length v") (auto simp: list_update_beyond not_less)

lemma fold_cw:
  "fold (\<lambda>p r. r\<lparr>containsWordAsSubstring := containsWordAsSubstring r \<or> P p\<rparr>) xs r =
     r\<lparr>containsWordAsSubstring := containsWordAsSubstring r \<or> (\<exists>p\<in>set xs. P p)\<rparr>"
  by (induction xs arbitrary: r) auto

lemma fold_suf_inner:
  "fold (\<lambda>q r. r\<lparr>containsSuffixEqualsToPrefix :=
            (containsSuffixEqualsToPrefix r)[p := (containsSuffixEqualsToPrefix r ! p \<or> Q q)]\<rparr>) qs r =
     r\<lparr>containsSuffixEqualsToPrefix :=
            (containsSuffixEqualsToPrefix r)[p := (containsSuffixEqualsToPrefix r ! p \<or> (\<exists>q\<in>set qs. Q q))]\<rparr>"
  by (induction qs arbitrary: r) (auto simp: upd_or_or)

lemma fold_pre_inner:
  "fold (\<lambda>q r. r\<lparr>containsPrefixEqualsToSuffix :=
            (containsPrefixEqualsToSuffix r)[p := (containsPrefixEqualsToSuffix r ! p \<or> Q q)]\<rparr>) qs r =
     r\<lparr>containsPrefixEqualsToSuffix :=
            (containsPrefixEqualsToSuffix r)[p := (containsPrefixEqualsToSuffix r ! p \<or> (\<exists>q\<in>set qs. Q q))]\<rparr>"
  by (induction qs arbitrary: r) (auto simp: upd_or_or)

lemma fold_suf_outer:
  "fold (\<lambda>p r. r\<lparr>containsSuffixEqualsToPrefix := (containsSuffixEqualsToPrefix r)[p := G p]\<rparr>) ps r =
     r\<lparr>containsSuffixEqualsToPrefix := fold (\<lambda>p v. v[p := G p]) ps (containsSuffixEqualsToPrefix r)\<rparr>"
  by (induction ps arbitrary: r) auto

lemma fold_pre_outer:
  "fold (\<lambda>p r. r\<lparr>containsPrefixEqualsToSuffix := (containsPrefixEqualsToSuffix r)[p := G p]\<rparr>) ps r =
     r\<lparr>containsPrefixEqualsToSuffix := fold (\<lambda>p v. v[p := G p]) ps (containsPrefixEqualsToSuffix r)\<rparr>"
  by (induction ps arbitrary: r) auto

lemma length_fold_upd [simp]: "length (fold (\<lambda>p v. v[p := G p]) ps v) = length v"
  by (induction ps arbitrary: v) auto

lemma nth_fold_upd:
  "fold (\<lambda>p v. v[p := G p]) ps v ! i = (if i \<in> set ps \<and> i < length v then G i else v ! i)"
proof (induction ps arbitrary: v)
  case Nil
  then show ?case by simp
next
  case (Cons a ps)
  show ?case
    by (cases "a = i"; cases "i < length v")
       (simp_all add: Cons.IH list_update_beyond)
qed

lemma updW_eq:
  "updateContainsWordAsSubstringForMultiply this result left right =
     result\<lparr>
       containsWordAsSubstring :=
         containsWordAsSubstring left \<or> containsWordAsSubstring right \<or>
         (\<exists>p\<in>set [1..<wordLength this].
            containsSuffixEqualsToPrefix left ! p \<and>
            containsPrefixEqualsToSuffix right ! (wordLength this - p)),
       containsSuffixEqualsToPrefix :=
         fold (\<lambda>p v. v[p :=
                 (containsSuffixEqualsToPrefix right ! p \<or>
                  (containsSuffixEqualsToPrefix left ! p \<and> containsEpsilon right) \<or>
                  (\<exists>q\<in>set [1..<p]. containsSubstring right ! q ! (p - q) \<and>
                                    containsSuffixEqualsToPrefix left ! q))])
              [1..<wordLength this] (containsSuffixEqualsToPrefix result),
       containsPrefixEqualsToSuffix :=
         fold (\<lambda>s v. v[s :=
                 (containsPrefixEqualsToSuffix left ! s \<or>
                  (containsEpsilon left \<and> containsPrefixEqualsToSuffix right ! s) \<or>
                  (\<exists>r\<in>set [1..<s]. containsSubstring left ! (wordLength this - s) ! (s - r) \<and>
                                    containsPrefixEqualsToSuffix right ! r))])
              [1..<wordLength this] (containsPrefixEqualsToSuffix result) \<rparr>"
  unfolding updateContainsWordAsSubstringForMultiply_def Let_def
  by (simp add: fold_cw fold_suf_inner fold_pre_inner upd_or_or fold_suf_outer fold_pre_outer
        del: set_upt)

lemma fold_sub_inner:
  "fold (\<lambda>k r. r\<lparr>containsSubstring := orAt (containsSubstring r) i len (Q k)\<rparr>) ks =
     (\<lambda>r. r\<lparr>containsSubstring := orAt (containsSubstring r) i len (\<exists>k\<in>set ks. Q k)\<rparr>)"
proof
  fix r show "fold (\<lambda>k r. r\<lparr>containsSubstring := orAt (containsSubstring r) i len (Q k)\<rparr>) ks r =
     r\<lparr>containsSubstring := orAt (containsSubstring r) i len (\<exists>k\<in>set ks. Q k)\<rparr>"
    by (induction ks arbitrary: r) auto
qed

lemma fold_sub_lift:
  "fold (\<lambda>x r. r\<lparr>containsSubstring := F x (containsSubstring r)\<rparr>) xs =
     (\<lambda>r. r\<lparr>containsSubstring := fold F xs (containsSubstring r)\<rparr>)"
proof
  fix r show "fold (\<lambda>x r. r\<lparr>containsSubstring := F x (containsSubstring r)\<rparr>) xs r =
     r\<lparr>containsSubstring := fold F xs (containsSubstring r)\<rparr>"
    by (induction xs arbitrary: r) auto
qed

lemma fold_sub_mid:
  "fold (\<lambda>len r. r\<lparr>containsSubstring := orAt (containsSubstring r) i len (P len)\<rparr>) ls =
     (\<lambda>r. r\<lparr>containsSubstring := fold (\<lambda>len t. orAt t i len (P len)) ls (containsSubstring r)\<rparr>)"
  by (rule fold_sub_lift)

lemma fold_sub_outer:
  "fold (\<lambda>i r. r\<lparr>containsSubstring :=
            fold (\<lambda>len t. orAt t i len (P i len)) (ls i) (containsSubstring r)\<rparr>) is =
     (\<lambda>r. r\<lparr>containsSubstring :=
            fold (\<lambda>i. fold (\<lambda>len t. orAt t i len (P i len)) (ls i)) is (containsSubstring r)\<rparr>)"
  by (rule fold_sub_lift)

lemma updS_eq:
  "updateContainsSubstringForMultiply this result left right =
     result\<lparr>
       containsSubstring :=
         fold (\<lambda>i. fold (\<lambda>len t. orAt t i len (\<exists>k\<in>set [0..<len + 1]. splitAt left right i len k))
                        [1..<wordLength this - i + 1])
              [0..<wordLength this] (containsSubstring result),
       containsEpsilon := containsEpsilon left \<and> containsEpsilon right \<rparr>"
proof -
  have step: "(\<lambda>prefixLength result.
              let suffixLength = len - prefixLength in
              if prefixLength = 0 then
                (if containsEpsilon left
                 then result\<lparr> containsSubstring :=
                        orAt (containsSubstring result) startPosition len
                          (containsSubstring right ! startPosition ! len) \<rparr>
                 else result)
              else if suffixLength = 0 then
                (if containsEpsilon right
                 then result\<lparr> containsSubstring :=
                        orAt (containsSubstring result) startPosition len
                          (containsSubstring left ! startPosition ! len) \<rparr>
                 else result)
              else
                result\<lparr> containsSubstring :=
                  orAt (containsSubstring result) startPosition len
                    (containsSubstring left ! startPosition ! prefixLength \<and>
                     containsSubstring right ! (startPosition + prefixLength) ! suffixLength) \<rparr>)
       = (\<lambda>k r. r\<lparr>containsSubstring :=
             orAt (containsSubstring r) startPosition len (splitAt left right startPosition len k)\<rparr>)"
    for len startPosition
    by (intro ext) (simp add: splitAt_def Let_def)
  show ?thesis
    unfolding updateContainsSubstringForMultiply_def step
    by (simp add: fold_sub_inner fold_sub_mid fold_sub_outer Let_def del: set_upt upt_Suc)
qed

lemma length_fold_orAt [simp]:
  "length (fold (\<lambda>len t. orAt t (i len) len (P len)) ls t) = length t"
  by (induction ls arbitrary: t) auto

lemma length_nth_fold_orAt [simp]:
  "length (fold (\<lambda>len t. orAt t (i len) len (P len)) ls t ! i') = length (t ! i')"
  by (induction ls arbitrary: t) auto

lemma nth_fold_orAt:
  "fold (\<lambda>len t. orAt t i len (P len)) ls t ! i' ! j' =
     (if i' = i \<and> j' \<in> set ls \<and> i < length t \<and> j' < length (t ! i)
      then t ! i ! j' \<or> P j' else t ! i' ! j')"
proof (induction ls arbitrary: t)
  case Nil
  then show ?case by simp
next
  case (Cons a ls)
  show ?case
    by (simp add: Cons.IH nth_orAt) blast
qed

lemma length_fold2_orAt [simp]:
  "length (fold (\<lambda>i. fold (\<lambda>len t. orAt t i len (P i len)) (ls i)) is t) = length t"
  by (induction "is" arbitrary: t) auto

lemma length_nth_fold2_orAt [simp]:
  "length (fold (\<lambda>i. fold (\<lambda>len t. orAt t i len (P i len)) (ls i)) is t ! i') = length (t ! i')"
  by (induction "is" arbitrary: t) auto

lemma nth_fold2_orAt:
  "fold (\<lambda>i. fold (\<lambda>len t. orAt t i len (P i len)) (ls i)) is t ! i' ! j' =
     (if i' \<in> set is \<and> j' \<in> set (ls i') \<and> i' < length t \<and> j' < length (t ! i')
      then t ! i' ! j' \<or> P i' j' else t ! i' ! j')"
proof (induction "is" arbitrary: t)
  case Nil
  then show ?case by simp
next
  case (Cons a "is")
  show ?case
    by (simp add: Cons.IH nth_fold_orAt del: set_upt) blast
qed

lemma times_record:
  "Operand_times left right =
     \<lparr> containsSubstring =
         fold (\<lambda>i. fold (\<lambda>len t. orAt t i len (\<exists>k\<in>set [0..<len + 1]. splitAt left right i len k))
                        [1..<wordLength left - i + 1])
              [0..<wordLength left]
              (replicate (wordLength left + 1) (replicate (wordLength left + 1) False)),
       containsEpsilon = (containsEpsilon left \<and> containsEpsilon right),
       containsWordAsSubstring =
         (containsWordAsSubstring left \<or> containsWordAsSubstring right \<or>
          (\<exists>p\<in>set [1..<wordLength left].
             containsSuffixEqualsToPrefix left ! p \<and>
             containsPrefixEqualsToSuffix right ! (wordLength left - p))),
       containsSuffixEqualsToPrefix =
         fold (\<lambda>p v. v[p :=
                 (containsSuffixEqualsToPrefix right ! p \<or>
                  (containsSuffixEqualsToPrefix left ! p \<and> containsEpsilon right) \<or>
                  (\<exists>q\<in>set [1..<p]. containsSubstring right ! q ! (p - q) \<and>
                                    containsSuffixEqualsToPrefix left ! q))])
              [1..<wordLength left] (replicate (wordLength left + 1) False),
       containsPrefixEqualsToSuffix =
         fold (\<lambda>s v. v[s :=
                 (containsPrefixEqualsToSuffix left ! s \<or>
                  (containsEpsilon left \<and> containsPrefixEqualsToSuffix right ! s) \<or>
                  (\<exists>r\<in>set [1..<s]. containsSubstring left ! (wordLength left - s) ! (s - r) \<and>
                                    containsPrefixEqualsToSuffix right ! r))])
              [1..<wordLength left] (replicate (wordLength left + 1) False),
       wordLength = wordLength left \<rparr>"
  unfolding Operand_times_def Let_def updW_eq updS_eq
  by (simp add: Operand_ulong_def del: set_upt upt_Suc replicate_Suc)

lemma times_wordLength [simp]: "wordLength (Operand_times left right) = wordLength left"
  by (simp add: times_record del: set_upt upt_Suc replicate_Suc)

lemma times_eps [simp]:
  "containsEpsilon (Operand_times left right) = (containsEpsilon left \<and> containsEpsilon right)"
  by (simp add: times_record del: set_upt upt_Suc replicate_Suc)

lemma times_cw:
  "containsWordAsSubstring (Operand_times left right) =
     (containsWordAsSubstring left \<or> containsWordAsSubstring right \<or>
      (\<exists>p. 1 \<le> p \<and> p < wordLength left \<and>
           containsSuffixEqualsToPrefix left ! p \<and>
           containsPrefixEqualsToSuffix right ! (wordLength left - p)))"
  by (simp add: times_record Bex_def conj_ac del: upt_Suc replicate_Suc)

lemma times_length_sub [simp]:
  "length (containsSubstring (Operand_times left right)) = wordLength left + 1"
  by (simp add: times_record del: set_upt upt_Suc replicate_Suc)

lemma times_length_row [simp]:
  "i \<le> wordLength left \<Longrightarrow>
   length (containsSubstring (Operand_times left right) ! i) = wordLength left + 1"
  by (simp add: times_record del: set_upt upt_Suc replicate_Suc)

lemma times_length_suf [simp]:
  "length (containsSuffixEqualsToPrefix (Operand_times left right)) = wordLength left + 1"
  by (simp add: times_record del: set_upt upt_Suc replicate_Suc)

lemma times_length_pre [simp]:
  "length (containsPrefixEqualsToSuffix (Operand_times left right)) = wordLength left + 1"
  by (simp add: times_record del: set_upt upt_Suc replicate_Suc)

lemma times_suf:
  "p \<le> wordLength left \<Longrightarrow>
   containsSuffixEqualsToPrefix (Operand_times left right) ! p =
     (1 \<le> p \<and> p < wordLength left \<and>
      (containsSuffixEqualsToPrefix right ! p \<or>
       (containsSuffixEqualsToPrefix left ! p \<and> containsEpsilon right) \<or>
       (\<exists>q. 1 \<le> q \<and> q < p \<and> containsSuffixEqualsToPrefix left ! q \<and>
            containsSubstring right ! q ! (p - q))))"
  by (simp add: times_record nth_fold_upd Bex_def conj_ac del: upt_Suc replicate_Suc)

lemma times_pre:
  "s \<le> wordLength left \<Longrightarrow>
   containsPrefixEqualsToSuffix (Operand_times left right) ! s =
     (1 \<le> s \<and> s < wordLength left \<and>
      (containsPrefixEqualsToSuffix left ! s \<or>
       (containsEpsilon left \<and> containsPrefixEqualsToSuffix right ! s) \<or>
       (\<exists>r. 1 \<le> r \<and> r < s \<and> containsSubstring left ! (wordLength left - s) ! (s - r) \<and>
            containsPrefixEqualsToSuffix right ! r)))"
  by (simp add: times_record nth_fold_upd Bex_def conj_ac del: upt_Suc replicate_Suc)

lemma times_sub:
  "i \<le> wordLength left \<Longrightarrow> len \<le> wordLength left \<Longrightarrow>
   containsSubstring (Operand_times left right) ! i ! len =
     (i < wordLength left \<and> 1 \<le> len \<and> len \<le> wordLength left - i \<and>
      (\<exists>k\<le>len. splitAt left right i len k))"
  by (auto simp add: times_record nth_fold2_orAt Bex_def less_Suc_eq_le
        simp del: upt_Suc replicate_Suc)

subsection \<open>Union\<close>

lemma fold_suf_pre_union:
  "fold (\<lambda>len r. r\<lparr>containsSuffixEqualsToPrefix :=
                        (containsSuffixEqualsToPrefix r)[len := (containsSuffixEqualsToPrefix r ! len \<or> A len)],
                      containsPrefixEqualsToSuffix :=
                        (containsPrefixEqualsToSuffix r)[len := (containsPrefixEqualsToSuffix r ! len \<or> B len)]\<rparr>) ls r =
     r\<lparr>containsSuffixEqualsToPrefix :=
         fold (\<lambda>len v. v[len := (v ! len \<or> A len)]) ls (containsSuffixEqualsToPrefix r),
       containsPrefixEqualsToSuffix :=
         fold (\<lambda>len v. v[len := (v ! len \<or> B len)]) ls (containsPrefixEqualsToSuffix r)\<rparr>"
  by (induction ls arbitrary: r) auto

lemma length_fold_or [simp]: "length (fold (\<lambda>len v. v[len := (v ! len \<or> A len)]) ls v) = length v"
  by (induction ls arbitrary: v) auto

lemma nth_fold_or:
  "fold (\<lambda>len v. v[len := (v ! len \<or> A len)]) ls v ! j =
     (if j \<in> set ls \<and> j < length v then v ! j \<or> A j else v ! j)"
proof (induction ls arbitrary: v)
  case Nil
  then show ?case by simp
next
  case (Cons a ls)
  show ?case
    by (cases "a = j"; cases "j < length v")
       (auto simp add: Cons.IH list_update_beyond)
qed

lemma plus_record:
  "Operand_plus_fields this right =
     this\<lparr> containsSubstring :=
             fold (\<lambda>i. fold (\<lambda>len t. orAt t i len (containsSubstring right ! i ! len))
                            [0..<wordLength this - i + 1])
                  [0..<wordLength this] (containsSubstring this),
           containsSuffixEqualsToPrefix :=
             fold (\<lambda>len v. v[len := (v ! len \<or> containsSuffixEqualsToPrefix right ! len)])
                  [1..<wordLength this + 1] (containsSuffixEqualsToPrefix this),
           containsPrefixEqualsToSuffix :=
             fold (\<lambda>len v. v[len := (v ! len \<or> containsPrefixEqualsToSuffix right ! len)])
                  [1..<wordLength this + 1] (containsPrefixEqualsToSuffix this),
           containsEpsilon := containsEpsilon this \<or> containsEpsilon right,
           containsWordAsSubstring := containsWordAsSubstring this \<or> containsWordAsSubstring right \<rparr>"
  unfolding Operand_plus_fields_def Let_def
  by (simp add: fold_sub_mid fold_sub_outer fold_suf_pre_union del: set_upt upt_Suc)

lemma plus_wordLength [simp]: "wordLength (Operand_plus_fields this right) = wordLength this"
  by (simp add: plus_record del: set_upt upt_Suc)

lemma plus_eps [simp]:
  "containsEpsilon (Operand_plus_fields this right) = (containsEpsilon this \<or> containsEpsilon right)"
  by (simp add: plus_record del: set_upt upt_Suc)

lemma plus_cw [simp]:
  "containsWordAsSubstring (Operand_plus_fields this right) =
     (containsWordAsSubstring this \<or> containsWordAsSubstring right)"
  by (simp add: plus_record del: set_upt upt_Suc)

lemma plus_length_sub [simp]:
  "length (containsSubstring (Operand_plus_fields this right)) = length (containsSubstring this)"
  by (simp add: plus_record del: set_upt upt_Suc)

lemma plus_length_row [simp]:
  "length (containsSubstring (Operand_plus_fields this right) ! i) = length (containsSubstring this ! i)"
  by (simp add: plus_record del: set_upt upt_Suc)

lemma plus_length_suf [simp]:
  "length (containsSuffixEqualsToPrefix (Operand_plus_fields this right)) =
     length (containsSuffixEqualsToPrefix this)"
  by (simp add: plus_record del: set_upt upt_Suc)

lemma plus_length_pre [simp]:
  "length (containsPrefixEqualsToSuffix (Operand_plus_fields this right)) =
     length (containsPrefixEqualsToSuffix this)"
  by (simp add: plus_record del: set_upt upt_Suc)

lemma plus_suf:
  "containsSuffixEqualsToPrefix (Operand_plus_fields this right) ! p =
     (if 1 \<le> p \<and> p \<le> wordLength this \<and> p < length (containsSuffixEqualsToPrefix this)
      then containsSuffixEqualsToPrefix this ! p \<or> containsSuffixEqualsToPrefix right ! p
      else containsSuffixEqualsToPrefix this ! p)"
  by (auto simp add: plus_record nth_fold_or simp del: upt_Suc)

lemma plus_pre:
  "containsPrefixEqualsToSuffix (Operand_plus_fields this right) ! p =
     (if 1 \<le> p \<and> p \<le> wordLength this \<and> p < length (containsPrefixEqualsToSuffix this)
      then containsPrefixEqualsToSuffix this ! p \<or> containsPrefixEqualsToSuffix right ! p
      else containsPrefixEqualsToSuffix this ! p)"
  by (auto simp add: plus_record nth_fold_or simp del: upt_Suc)

lemma plus_sub:
  "containsSubstring (Operand_plus_fields this right) ! i ! len =
     (if i < wordLength this \<and> len \<le> wordLength this - i \<and>
         i < length (containsSubstring this) \<and> len < length (containsSubstring this ! i)
      then containsSubstring this ! i ! len \<or> containsSubstring right ! i ! len
      else containsSubstring this ! i ! len)"
  by (auto simp add: plus_record nth_fold2_orAt less_Suc_eq_le simp del: upt_Suc)

lemma Operand_plus_eq:
  "wordLength this = wordLength right \<Longrightarrow>
   Operand_plus this right = Inr (Operand_plus_fields this right)"
  by (simp add: Operand_plus_def Let_def)

subsection \<open>Leaves\<close>

lemma fold_leaf:
  "fold (\<lambda>i r. if C i then r\<lparr>containsSubstring :=
                       (containsSubstring r)[i := (containsSubstring r ! i)[1 := True]]\<rparr> else r) xs r =
     r\<lparr>containsSubstring :=
         fold (\<lambda>i t. if C i then t[i := (t ! i)[Suc 0 := True]] else t) xs (containsSubstring r)\<rparr>"
  by (induction xs arbitrary: r) auto

lemma length_fold_leaf [simp]:
  "length (fold (\<lambda>i t. if C i then t[i := (t ! i)[Suc 0 := True]] else t) xs t) = length t"
  by (induction xs arbitrary: t) auto

lemma length_nth_fold_leaf [simp]:
  "length (fold (\<lambda>i t. if C i then t[i := (t ! i)[Suc 0 := True]] else t) xs t ! j) = length (t ! j)"
proof (induction xs arbitrary: t)
  case Nil
  then show ?case by simp
next
  case (Cons a xs)
  show ?case
    by (cases "a = j"; cases "j < length t") (simp_all add: Cons.IH list_update_beyond)
qed

lemma nth_fold_leaf:
  "fold (\<lambda>i t. if C i then t[i := (t ! i)[Suc 0 := True]] else t) xs t ! i' ! j' =
     (t ! i' ! j' \<or>
      (i' \<in> set xs \<and> C i' \<and> j' = Suc 0 \<and> i' < length t \<and> Suc 0 < length (t ! i')))"
proof (induction xs arbitrary: t)
  case Nil
  then show ?case by simp
next
  case (Cons a xs)
  have step: "(if C a then t[a := (t ! a)[Suc 0 := True]] else t) ! i' ! j' =
      (t ! i' ! j' \<or> (a = i' \<and> C i' \<and> j' = Suc 0 \<and> i' < length t \<and> Suc 0 < length (t ! i')))"
    by (cases "a = i'"; cases "i' < length t"; cases "j' = Suc 0"; cases "Suc 0 < length (t ! i')")
       (simp_all add: list_update_beyond nth_list_update)
  have len: "length ((if C a then t[a := (t ! a)[Suc 0 := True]] else t) ! i') = length (t ! i')"
    by (cases "a = i'"; cases "i' < length t") (simp_all add: list_update_beyond)
  have "fold (\<lambda>i t. if C i then t[i := (t ! i)[Suc 0 := True]] else t) (a # xs) t ! i' ! j' =
        fold (\<lambda>i t. if C i then t[i := (t ! i)[Suc 0 := True]] else t) xs
          (if C a then t[a := (t ! a)[Suc 0 := True]] else t) ! i' ! j'"
    by simp
  also have "\<dots> = ((if C a then t[a := (t ! a)[Suc 0 := True]] else t) ! i' ! j' \<or>
      (i' \<in> set xs \<and> C i' \<and> j' = Suc 0 \<and>
       i' < length (if C a then t[a := (t ! a)[Suc 0 := True]] else t) \<and>
       Suc 0 < length ((if C a then t[a := (t ! a)[Suc 0 := True]] else t) ! i')))"
    by (rule Cons.IH)
  also have "\<dots> = (t ! i' ! j' \<or>
      (i' \<in> set (a # xs) \<and> C i' \<and> j' = Suc 0 \<and> i' < length t \<and> Suc 0 < length (t ! i')))"
    unfolding step len by auto
  finally show ?case .
qed

lemma char_eps_record:
  "Operand_char EPSILON word =
     \<lparr> containsSubstring = replicate (length word + 1) (replicate (length word + 1) False),
       containsEpsilon = True,
       containsWordAsSubstring = False,
       containsSuffixEqualsToPrefix = replicate (length word + 1) False,
       containsPrefixEqualsToSuffix = replicate (length word + 1) False,
       wordLength = length word \<rparr>"
  by (simp add: Operand_char_def del: replicate_Suc)

lemma char_record:
  "c \<noteq> EPSILON \<Longrightarrow>
   Operand_char c word =
     \<lparr> containsSubstring =
         fold (\<lambda>i t. if c = word ! i then t[i := (t ! i)[Suc 0 := True]] else t)
              [0..<length word]
              (replicate (length word + 1) (replicate (length word + 1) False)),
       containsEpsilon = False,
       containsWordAsSubstring = (length word = 1 \<and> word ! 0 = c),
       containsSuffixEqualsToPrefix =
         (if word ! 0 = c then (replicate (length word + 1) False)[1 := True]
          else replicate (length word + 1) False),
       containsPrefixEqualsToSuffix =
         (if last word = c then (replicate (length word + 1) False)[1 := True]
          else replicate (length word + 1) False),
       wordLength = length word \<rparr>"
  unfolding Operand_char_def Let_def
  by (simp add: fold_leaf del: replicate_Suc upt_Suc)

lemma char_wordLength [simp]: "wordLength (Operand_char c word) = length word"
  by (cases "c = EPSILON") (simp_all add: char_record char_eps_record del: replicate_Suc upt_Suc)

lemma char_length_sub [simp]: "length (containsSubstring (Operand_char c word)) = length word + 1"
  by (cases "c = EPSILON") (simp_all add: char_record char_eps_record del: replicate_Suc upt_Suc)

lemma char_length_row [simp]:
  "i \<le> length word \<Longrightarrow> length (containsSubstring (Operand_char c word) ! i) = length word + 1"
  by (cases "c = EPSILON") (simp_all add: char_record char_eps_record del: replicate_Suc upt_Suc)

lemma char_length_suf [simp]:
  "length (containsSuffixEqualsToPrefix (Operand_char c word)) = length word + 1"
  by (cases "c = EPSILON") (simp_all add: char_record char_eps_record del: replicate_Suc upt_Suc)

lemma char_length_pre [simp]:
  "length (containsPrefixEqualsToSuffix (Operand_char c word)) = length word + 1"
  by (cases "c = EPSILON") (simp_all add: char_record char_eps_record del: replicate_Suc upt_Suc)

lemma list_all_rows: "list_all (\<lambda>row. length row = n) t = (\<forall>i<length t. length (t ! i) = n)"
  by (simp add: list_all_length)

lemma operandFor_char [simp]: "operandFor (length word) (Operand_char c word)"
  by (simp add: operandFor_def list_all_rows)

lemma operandFor_times [simp]: "operandFor (wordLength left) (Operand_times left right)"
  by (simp add: operandFor_def list_all_rows)

lemma operandFor_plus [simp]:
  "operandFor L this \<Longrightarrow> operandFor L (Operand_plus_fields this right)"
  by (simp add: operandFor_def list_all_rows)

section \<open>The Kleene-star loop\<close>

lemma opPower_wordLength [simp]: "wordLength (opPower e word k) = length word"
  by (induction k) simp_all

lemma unionOfPowers_wordLength [simp]: "wordLength (unionOfPowers e word n) = length word"
  by (induction n) simp_all

lemma kleeneLoop_powers:
  "kleeneLoop n e (opPower e word k) (unionOfPowers e word k) =
     Inr (unionOfPowers e word (k + n))"
proof (induction n arbitrary: k)
  case 0
  then show ?case by simp
next
  case (Suc n)
  have "kleeneLoop (Suc n) e (opPower e word k) (unionOfPowers e word k) =
        kleeneLoop n e (opPower e word (Suc k)) (unionOfPowers e word (Suc k))"
    by (simp add: Operand_plus_eq Let_def)
  also have "\<dots> = Inr (unionOfPowers e word (Suc k + n))"
    by (rule Suc.IH)
  finally show ?case by simp
qed

lemma calculateKleeneStar_eq:
  "calculateKleeneStar word (e # stack) =
     Inr (unionOfPowers e word (2 * length word + 2) # stack)"
  using kleeneLoop_powers [of "2 * length word + 2" e word 0]
  by (simp add: calculateKleeneStar_def Let_def del: kleeneLoop.simps opPower.simps unionOfPowers.simps
        add: opPower.simps(1) unionOfPowers.simps(1))

lemma unionOfPowers_eps: "containsEpsilon (unionOfPowers e word n)"
  by (induction n) (simp_all add: char_eps_record)

lemma eps_leaf_sub [simp]:
  "i \<le> length word \<Longrightarrow> len \<le> length word \<Longrightarrow>
   containsSubstring (Operand_char EPSILON word) ! i ! len = False"
  by (simp add: char_eps_record del: replicate_Suc)

lemma eps_leaf_suf [simp]:
  "p \<le> length word \<Longrightarrow> containsSuffixEqualsToPrefix (Operand_char EPSILON word) ! p = False"
  by (simp add: char_eps_record del: replicate_Suc)

lemma eps_leaf_pre [simp]:
  "p \<le> length word \<Longrightarrow> containsPrefixEqualsToSuffix (Operand_char EPSILON word) ! p = False"
  by (simp add: char_eps_record del: replicate_Suc)

lemma eps_leaf_eps [simp]: "containsEpsilon (Operand_char EPSILON word) = True"
  by (simp add: char_eps_record)

lemma eps_leaf_cw [simp]: "containsWordAsSubstring (Operand_char EPSILON word) = False"
  by (simp add: char_eps_record)

lemma opPower_eps: "containsEpsilon (opPower e word k) = (k = 0 \<or> containsEpsilon e)"
  by (induction k) auto

lemma opPower_sub_Suc:
  assumes "i < length word" "1 \<le> len" "len \<le> length word - i"
  shows "containsSubstring (opPower e word (Suc k)) ! i ! len =
           (\<exists>j\<le>len. splitAt (opPower e word k) e i len j)"
  using assms by (simp add: times_sub)

lemma opPower_sub_zero:
  assumes "i < length word" "len \<le> length word - i"
  shows "\<not> containsSubstring (opPower e word 0) ! i ! len"
  using assms by simp

text \<open>With epsilon in e, the window table of the powers grows.\<close>

lemma opPower_sub_mono:
  assumes "containsEpsilon e" "i < length word" "1 \<le> len" "len \<le> length word - i"
    and "containsSubstring (opPower e word k) ! i ! len"
  shows "containsSubstring (opPower e word (Suc k)) ! i ! len"
proof -
  have "splitAt (opPower e word k) e i len len"
    using assms by (simp add: splitAt_def)
  then show ?thesis
    using assms(2-4) by (subst opPower_sub_Suc) auto
qed

lemma opPower_sub_one:
  assumes "i < length word" "1 \<le> len" "len \<le> length word - i"
  shows "containsSubstring (opPower e word (Suc 0)) ! i ! len = containsSubstring e ! i ! len"
proof -
  have "splitAt (opPower e word 0) e i len j = (j = 0 \<and> containsSubstring e ! i ! len)"
    if "j \<le> len" for j
    using that assms by (auto simp: splitAt_def)
  then show ?thesis
    using assms by (subst opPower_sub_Suc) auto
qed

lemma opPower_sub_from_e:
  assumes "containsEpsilon e" "i < length word" "1 \<le> len" "len \<le> length word - i"
    and "containsSubstring e ! i ! len"
  shows "containsSubstring (opPower e word (Suc k)) ! i ! len"
proof (induction k)
  case 0
  then show ?case using assms by (simp only: opPower_sub_one)
next
  case (Suc k)
  show ?case by (rule opPower_sub_mono [OF assms(1-4) Suc])
qed

lemma opPower_sub_stable_eps:
  assumes e: "containsEpsilon e"
  shows "i < length word \<Longrightarrow> 1 \<le> len \<Longrightarrow> len \<le> length word - i \<Longrightarrow> len \<le> n \<Longrightarrow>
         containsSubstring (opPower e word (Suc n)) ! i ! len \<Longrightarrow>
         containsSubstring (opPower e word n) ! i ! len"
proof (induction len arbitrary: n rule: less_induct)
  case (less len)
  from less.prems obtain m where n: "n = Suc m" by (cases n) auto
  from less.prems(1-3,5) obtain j where j: "j \<le> len" "splitAt (opPower e word n) e i len j"
    by (subst (asm) opPower_sub_Suc) auto
  consider "j = 0" | "j = len" "j \<noteq> 0" | "0 < j" "j < len"
    using j(1) by linarith
  then show ?case
  proof cases
    case 1
    then have "containsSubstring e ! i ! len" using j(2) by (simp add: splitAt_def)
    then show ?thesis
      unfolding n using e less.prems(1-3) by (intro opPower_sub_from_e)
  next
    case 2
    then show ?thesis using j(2) by (simp add: splitAt_def)
  next
    case 3
    then have a: "containsSubstring (opPower e word (Suc m)) ! i ! j"
      and b: "containsSubstring e ! (i + j) ! (len - j)"
      using j(2) by (simp_all add: splitAt_def n)
    have "containsSubstring (opPower e word m) ! i ! j"
      by (rule less.IH) (use 3 less.prems a in \<open>auto simp: n\<close>)
    then have "splitAt (opPower e word m) e i len j"
      using 3 b by (simp add: splitAt_def)
    then show ?thesis
      unfolding n using less.prems(1-3) j(1) by (subst opPower_sub_Suc) auto
  qed
qed

lemma opPower_sub_bound_noeps:
  assumes e: "\<not> containsEpsilon e"
  shows "i < length word \<Longrightarrow> 1 \<le> len \<Longrightarrow> len \<le> length word - i \<Longrightarrow>
         containsSubstring (opPower e word k) ! i ! len \<Longrightarrow> k \<le> len"
proof (induction k arbitrary: len)
  case 0
  then show ?case by simp
next
  case (Suc k)
  from Suc.prems obtain j where j: "j \<le> len" "splitAt (opPower e word k) e i len j"
    by (subst (asm) opPower_sub_Suc) auto
  consider "j = 0" | "j = len" "j \<noteq> 0" | "0 < j" "j < len"
    using j(1) by linarith
  then show ?case
  proof cases
    case 1
    then have "containsEpsilon (opPower e word k)" using j(2) by (simp add: splitAt_def)
    then have "k = 0" using e by (simp add: opPower_eps)
    then show ?thesis using Suc.prems by simp
  next
    case 2
    then show ?thesis using j(2) e by (simp add: splitAt_def)
  next
    case 3
    then have c: "containsSubstring (opPower e word k) ! i ! j"
      using j(2) by (simp add: splitAt_def)
    have "k \<le> j" by (rule Suc.IH) (use 3 Suc.prems c in \<open>auto\<close>)
    then show ?thesis using 3 by simp
  qed
qed

lemma opPower_sub_stable:
  assumes "i < length word" "1 \<le> len" "len \<le> length word - i" "length word \<le> n"
    and "containsSubstring (opPower e word (Suc n)) ! i ! len"
  shows "containsSubstring (opPower e word n) ! i ! len"
proof (cases "containsEpsilon e")
  case True
  show ?thesis by (rule opPower_sub_stable_eps) (use True assms in \<open>auto\<close>)
next
  case False
  have "Suc n \<le> len" by (rule opPower_sub_bound_noeps) (use False assms in \<open>auto\<close>)
  then show ?thesis using assms by simp
qed

lemma opPower_suf_Suc:
  assumes "1 \<le> p" "p < length word"
  shows "containsSuffixEqualsToPrefix (opPower e word (Suc k)) ! p =
     (containsSuffixEqualsToPrefix e ! p \<or>
      (containsSuffixEqualsToPrefix (opPower e word k) ! p \<and> containsEpsilon e) \<or>
      (\<exists>q. 1 \<le> q \<and> q < p \<and> containsSuffixEqualsToPrefix (opPower e word k) ! q \<and>
           containsSubstring e ! q ! (p - q)))"
  using assms by (simp add: times_suf)

lemma opPower_pre_Suc:
  assumes "1 \<le> s" "s < length word"
  shows "containsPrefixEqualsToSuffix (opPower e word (Suc k)) ! s =
     (containsPrefixEqualsToSuffix (opPower e word k) ! s \<or>
      (containsEpsilon (opPower e word k) \<and> containsPrefixEqualsToSuffix e ! s) \<or>
      (\<exists>r. 1 \<le> r \<and> r < s \<and>
           containsSubstring (opPower e word k) ! (length word - s) ! (s - r) \<and>
           containsPrefixEqualsToSuffix e ! r))"
  using assms by (simp add: times_pre)

lemma opPower_cw_Suc:
  "containsWordAsSubstring (opPower e word (Suc k)) =
     (containsWordAsSubstring (opPower e word k) \<or> containsWordAsSubstring e \<or>
      (\<exists>p. 1 \<le> p \<and> p < length word \<and>
           containsSuffixEqualsToPrefix (opPower e word k) ! p \<and>
           containsPrefixEqualsToSuffix e ! (length word - p)))"
  by (simp add: times_cw)

lemma opPower_suf_stable:
  "1 \<le> p \<Longrightarrow> p < length word \<Longrightarrow> p \<le> n \<Longrightarrow>
   containsSuffixEqualsToPrefix (opPower e word (Suc n)) ! p \<Longrightarrow>
   containsSuffixEqualsToPrefix (opPower e word n) ! p"
proof (induction p arbitrary: n rule: less_induct)
  case (less p)
  from less.prems obtain m where n: "n = Suc m" by (cases n) auto
  from less.prems(1,2,4) consider
      "containsSuffixEqualsToPrefix e ! p"
    | "containsSuffixEqualsToPrefix (opPower e word n) ! p"
    | q where "1 \<le> q" "q < p" "containsSuffixEqualsToPrefix (opPower e word n) ! q"
        "containsSubstring e ! q ! (p - q)"
    by (subst (asm) opPower_suf_Suc) auto
  then show ?case
  proof cases
    case 1
    then show ?thesis
      unfolding n using less.prems(1,2) by (subst opPower_suf_Suc) auto
  next
    case 2
    then show ?thesis .
  next
    case 3
    have "containsSuffixEqualsToPrefix (opPower e word m) ! q"
      by (rule less.IH) (use 3 less.prems in \<open>auto simp: n\<close>)
    then show ?thesis
      unfolding n using less.prems(1,2) 3 by (subst opPower_suf_Suc) auto
  qed
qed

lemma opPower_pre_mono:
  assumes "1 \<le> s" "s < length word" "containsPrefixEqualsToSuffix (opPower e word k) ! s"
  shows "containsPrefixEqualsToSuffix (opPower e word (k + d)) ! s"
proof (induction d)
  case 0
  then show ?case using assms by simp
next
  case (Suc d)
  then show ?case using assms(1,2) by (simp add: opPower_pre_Suc del: opPower.simps)
qed

lemma opPower_pre_from_e:
  assumes "1 \<le> s" "s < length word" "containsPrefixEqualsToSuffix e ! s"
  shows "containsPrefixEqualsToSuffix (opPower e word (Suc m)) ! s"
proof -
  have "containsPrefixEqualsToSuffix (opPower e word (Suc 0)) ! s"
    using assms by (subst opPower_pre_Suc) (auto simp: opPower_eps)
  from opPower_pre_mono [OF assms(1,2) this, of m] show ?thesis by simp
qed

lemma opPower_pre_stable:
  assumes "1 \<le> s" "s < length word" "Suc (length word) \<le> n"
    and "containsPrefixEqualsToSuffix (opPower e word (Suc n)) ! s"
  shows "containsPrefixEqualsToSuffix (opPower e word n) ! s"
proof -
  from assms(3) obtain m where n: "n = Suc m" and m: "length word \<le> m" by (cases n) auto
  from assms(1,2,4) consider
      "containsPrefixEqualsToSuffix (opPower e word n) ! s"
    | "containsPrefixEqualsToSuffix e ! s"
    | r where "1 \<le> r" "r < s"
        "containsSubstring (opPower e word n) ! (length word - s) ! (s - r)"
        "containsPrefixEqualsToSuffix e ! r"
    by (subst (asm) opPower_pre_Suc) auto
  then show ?thesis
  proof cases
    case 1
    then show ?thesis .
  next
    case 2
    then show ?thesis unfolding n using assms(1,2) by (intro opPower_pre_from_e)
  next
    case 3
    have "containsSubstring (opPower e word m) ! (length word - s) ! (s - r)"
      by (rule opPower_sub_stable) (use 3 assms(1,2) m in \<open>auto simp: n\<close>)
    then show ?thesis
      unfolding n using assms(1,2) 3 by (subst opPower_pre_Suc) auto
  qed
qed

lemma opPower_cw_mono:
  assumes "containsWordAsSubstring (opPower e word k)"
  shows "containsWordAsSubstring (opPower e word (k + d))"
proof (induction d)
  case 0
  then show ?case using assms by simp
next
  case (Suc d)
  then show ?case by (simp add: opPower_cw_Suc del: opPower.simps)
qed

lemma opPower_cw_from_e:
  assumes "containsWordAsSubstring e"
  shows "containsWordAsSubstring (opPower e word (Suc m))"
proof -
  have "containsWordAsSubstring (opPower e word (Suc 0))"
    using assms by (subst opPower_cw_Suc) auto
  from opPower_cw_mono [OF this, of m] show ?thesis by simp
qed

lemma opPower_cw_stable:
  assumes "Suc (length word) \<le> n" "containsWordAsSubstring (opPower e word (Suc n))"
  shows "containsWordAsSubstring (opPower e word n)"
proof -
  from assms(1) obtain m where n: "n = Suc m" and m: "length word \<le> m" by (cases n) auto
  from assms(2) consider
      "containsWordAsSubstring (opPower e word n)"
    | "containsWordAsSubstring e"
    | p where "1 \<le> p" "p < length word"
        "containsSuffixEqualsToPrefix (opPower e word n) ! p"
        "containsPrefixEqualsToSuffix e ! (length word - p)"
    by (subst (asm) opPower_cw_Suc) auto
  then show ?thesis
  proof cases
    case 1
    then show ?thesis .
  next
    case 2
    then show ?thesis unfolding n by (intro opPower_cw_from_e)
  next
    case 3
    have "containsSuffixEqualsToPrefix (opPower e word m) ! p"
      by (rule opPower_suf_stable) (use 3 m in \<open>auto simp: n\<close>)
    then show ?thesis
      unfolding n using 3 by (subst opPower_cw_Suc) auto
  qed
qed

subsection \<open>The accumulated union contains every power met so far\<close>

lemma operandFor_opPower [simp]: "operandFor (length word) (opPower e word k)"
proof (cases k)
  case 0
  then show ?thesis by simp
next
  case (Suc m)
  show ?thesis
    unfolding Suc opPower.simps
    using operandFor_times [of "opPower e word m" e] by simp
qed

lemma operandFor_unionOfPowers [simp]: "operandFor (length word) (unionOfPowers e word n)"
  by (induction n) (simp_all del: opPower.simps)

lemma operandFor_row:
  "operandFor L x \<Longrightarrow> i \<le> L \<Longrightarrow> length (containsSubstring x ! i) = L + 1"
  by (simp add: operandFor_def list_all_rows)

lemma union_has_power_sub:
  assumes "i < length word" "len \<le> length word - i"
    and "containsSubstring (opPower e word n) ! i ! len"
  shows "containsSubstring (unionOfPowers e word n) ! i ! len"
proof (cases n)
  case 0
  then show ?thesis using assms by simp
next
  case (Suc m)
  have f: "operandFor (length word) (unionOfPowers e word m)" by simp
  have l: "len < Suc (length word)" using assms(1,2) by arith
  show ?thesis
    unfolding Suc unionOfPowers.simps
    using assms f l operandFor_row [OF f, of i]
    by (simp add: plus_sub Suc operandFor_def del: opPower.simps)
qed

lemma union_has_power_suf:
  assumes "1 \<le> p" "p \<le> length word"
    and "containsSuffixEqualsToPrefix (opPower e word n) ! p"
  shows "containsSuffixEqualsToPrefix (unionOfPowers e word n) ! p"
proof (cases n)
  case 0
  then show ?thesis using assms by simp
next
  case (Suc m)
  have f: "operandFor (length word) (unionOfPowers e word m)" by simp
  show ?thesis
    unfolding Suc unionOfPowers.simps
    using assms f by (simp add: plus_suf Suc operandFor_def del: opPower.simps)
qed

lemma union_has_power_pre:
  assumes "1 \<le> p" "p \<le> length word"
    and "containsPrefixEqualsToSuffix (opPower e word n) ! p"
  shows "containsPrefixEqualsToSuffix (unionOfPowers e word n) ! p"
proof (cases n)
  case 0
  then show ?thesis using assms by simp
next
  case (Suc m)
  have f: "operandFor (length word) (unionOfPowers e word m)" by simp
  show ?thesis
    unfolding Suc unionOfPowers.simps
    using assms f by (simp add: plus_pre Suc operandFor_def del: opPower.simps)
qed

lemma union_has_power_cw:
  "containsWordAsSubstring (opPower e word n) \<Longrightarrow>
   containsWordAsSubstring (unionOfPowers e word n)"
  by (cases n) (simp_all del: opPower.simps)

subsection \<open>A union with an operand that adds nothing\<close>

lemma plus_absorb:
  assumes f: "operandFor L a"
    and eps: "containsEpsilon b \<Longrightarrow> containsEpsilon a"
    and cw: "containsWordAsSubstring b \<Longrightarrow> containsWordAsSubstring a"
    and sub: "\<And>i len. i < L \<Longrightarrow> len \<le> L - i \<Longrightarrow>
               containsSubstring b ! i ! len \<Longrightarrow> containsSubstring a ! i ! len"
    and suf: "\<And>p. 1 \<le> p \<Longrightarrow> p \<le> L \<Longrightarrow>
               containsSuffixEqualsToPrefix b ! p \<Longrightarrow> containsSuffixEqualsToPrefix a ! p"
    and pre: "\<And>p. 1 \<le> p \<Longrightarrow> p \<le> L \<Longrightarrow>
               containsPrefixEqualsToSuffix b ! p \<Longrightarrow> containsPrefixEqualsToSuffix a ! p"
  shows "Operand_plus_fields a b = a"
proof -
  have wl: "wordLength a = L" using f by (simp add: operandFor_def)
  have "containsSubstring (Operand_plus_fields a b) ! i = containsSubstring a ! i"
    if "i < length (containsSubstring a)" for i
  proof (rule nth_equalityI)
    show "length (containsSubstring (Operand_plus_fields a b) ! i) = length (containsSubstring a ! i)"
      by simp
  next
    fix len
    show "containsSubstring (Operand_plus_fields a b) ! i ! len = containsSubstring a ! i ! len"
      using sub [of i len] by (auto simp: plus_sub wl)
  qed
  then have 1: "containsSubstring (Operand_plus_fields a b) = containsSubstring a"
    by (intro nth_equalityI) simp_all
  have 2: "containsSuffixEqualsToPrefix (Operand_plus_fields a b) = containsSuffixEqualsToPrefix a"
  proof (rule nth_equalityI)
    fix p
    show "containsSuffixEqualsToPrefix (Operand_plus_fields a b) ! p = containsSuffixEqualsToPrefix a ! p"
      using suf [of p] by (auto simp: plus_suf wl)
  qed simp
  have 3: "containsPrefixEqualsToSuffix (Operand_plus_fields a b) = containsPrefixEqualsToSuffix a"
  proof (rule nth_equalityI)
    fix p
    show "containsPrefixEqualsToSuffix (Operand_plus_fields a b) ! p = containsPrefixEqualsToSuffix a ! p"
      using pre [of p] by (auto simp: plus_pre wl)
  qed simp
  have 4: "containsEpsilon (Operand_plus_fields a b) = containsEpsilon a"
    using eps by auto
  have 5: "containsWordAsSubstring (Operand_plus_fields a b) = containsWordAsSubstring a"
    using cw by auto
  have 6: "wordLength (Operand_plus_fields a b) = wordLength a" by simp
  have 7: "Operand.more (Operand_plus_fields a b) = Operand.more a"
    by (simp add: plus_record del: upt_Suc set_upt)
  show ?thesis
    by (rule Operand.equality) (fact 1 2 3 4 5 6 7)+
qed

lemma opPower_out_of_window:
  assumes "i \<le> length word" "len \<le> length word" "containsSubstring (opPower e word k) ! i ! len"
  shows "i < length word \<and> 1 \<le> len \<and> len \<le> length word - i"
proof (cases k)
  case 0
  then show ?thesis using assms by simp
next
  case (Suc m)
  then show ?thesis using assms by (simp add: times_sub)
qed

lemma opPower_suf_range:
  assumes "p \<le> length word" "containsSuffixEqualsToPrefix (opPower e word k) ! p"
  shows "1 \<le> p \<and> p < length word"
proof (cases k)
  case 0
  then show ?thesis using assms by simp
next
  case (Suc m)
  then show ?thesis using assms by (simp add: times_suf)
qed

lemma opPower_pre_range:
  assumes "p \<le> length word" "containsPrefixEqualsToSuffix (opPower e word k) ! p"
  shows "1 \<le> p \<and> p < length word"
proof (cases k)
  case 0
  then show ?thesis using assms by simp
next
  case (Suc m)
  then show ?thesis using assms by (simp add: times_pre)
qed

lemma unionOfPowers_stable_step:
  assumes "Suc (length word) \<le> n"
  shows "unionOfPowers e word (Suc n) = unionOfPowers e word n"
proof -
  have "Operand_plus_fields (unionOfPowers e word n) (opPower e word (Suc n)) =
        unionOfPowers e word n"
  proof (rule plus_absorb [where L = "length word"])
    show "operandFor (length word) (unionOfPowers e word n)" by simp
  next
    show "containsEpsilon (unionOfPowers e word n)" by (rule unionOfPowers_eps)
  next
    assume c: "containsWordAsSubstring (opPower e word (Suc n))"
    show "containsWordAsSubstring (unionOfPowers e word n)"
      by (rule union_has_power_cw, rule opPower_cw_stable) (use assms c in auto)
  next
    fix i len
    assume a: "i < length word" "len \<le> length word - i"
      "containsSubstring (opPower e word (Suc n)) ! i ! len"
    then have "1 \<le> len"
      using opPower_out_of_window [of i word len e "Suc n"] by simp
    then have b: "1 \<le> len"
      by simp
    have "containsSubstring (opPower e word n) ! i ! len"
      by (rule opPower_sub_stable) (use a b assms in \<open>auto\<close>)
    then show "containsSubstring (unionOfPowers e word n) ! i ! len"
      using a by (intro union_has_power_sub)
  next
    fix p
    assume a: "1 \<le> p" "p \<le> length word"
      "containsSuffixEqualsToPrefix (opPower e word (Suc n)) ! p"
    then have "p < length word"
      using opPower_suf_range [of p word e "Suc n"] by simp
    then have b: "p < length word"
      by simp
    have "containsSuffixEqualsToPrefix (opPower e word n) ! p"
      by (rule opPower_suf_stable) (use a b assms in \<open>auto\<close>)
    then show "containsSuffixEqualsToPrefix (unionOfPowers e word n) ! p"
      using a by (intro union_has_power_suf)
  next
    fix p
    assume a: "1 \<le> p" "p \<le> length word"
      "containsPrefixEqualsToSuffix (opPower e word (Suc n)) ! p"
    then have "p < length word"
      using opPower_pre_range [of p word e "Suc n"] by simp
    then have b: "p < length word"
      by simp
    have "containsPrefixEqualsToSuffix (opPower e word n) ! p"
      by (rule opPower_pre_stable) (use a b assms in \<open>auto\<close>)
    then show "containsPrefixEqualsToSuffix (unionOfPowers e word n) ! p"
      using a by (intro union_has_power_pre)
  qed
  then show ?thesis by simp
qed

lemma unionOfPowers_stable:
  "Suc (length word) \<le> n \<Longrightarrow> unionOfPowers e word (n + d) = unionOfPowers e word n"
proof (induction d)
  case 0
  then show ?case by simp
next
  case (Suc d)
  have "unionOfPowers e word (n + Suc d) = unionOfPowers e word (Suc (n + d))"
    by (simp only: add_Suc_right)
  also have "\<dots> = unionOfPowers e word (n + d)"
    by (rule unionOfPowers_stable_step) (use Suc.prems in \<open>simp\<close>)
  also have "\<dots> = unionOfPowers e word n"
    by (rule Suc.IH [OF Suc.prems])
  finally show ?case .
qed

section \<open>Properties of the operand algebra\<close>

text \<open>
  Claim C2.  For two operands built for the same reference string of length \<open>L\<close>, the
  concatenation matches the whole reference string iff the left operand does, or the right
  operand does, or some split position \<open>1 \<le> p < L\<close> has
  \<open>left.suffixIsPrefixOfW[p]\<close> and \<open>right.prefixIsSuffixOfW[L - p]\<close>.
\<close>

theorem concat_matchesWholeW:
  assumes "operandFor L left" and "operandFor L right"
  shows "containsWordAsSubstring (Operand_times left right) \<longleftrightarrow>
           containsWordAsSubstring left \<or> containsWordAsSubstring right \<or>
           (\<exists>p. 1 \<le> p \<and> p < L \<and>
                containsSuffixEqualsToPrefix left ! p \<and>
                containsPrefixEqualsToSuffix right ! (L - p))"
proof -
  have "wordLength left = L" using assms(1) by (simp add: operandFor_def)
  then show ?thesis by (simp add: times_cw)
qed

theorem concat_matchesWholeW_witness:
  "operandFor 2 (Operand_char (CHR ''a'') ''ab'') \<and>
   operandFor 2 (Operand_char (CHR ''b'') ''ab'') \<and>
   containsWordAsSubstring
     (Operand_times (Operand_char (CHR ''a'') ''ab'') (Operand_char (CHR ''b'') ''ab''))"
proof -
  have l: "operandFor 2 (Operand_char (CHR ''a'') ''ab'')" by code_simp
  have r: "operandFor 2 (Operand_char (CHR ''b'') ''ab'')" by code_simp
  have s: "containsSuffixEqualsToPrefix (Operand_char (CHR ''a'') ''ab'') ! 1" by code_simp
  have p: "containsPrefixEqualsToSuffix (Operand_char (CHR ''b'') ''ab'') ! (2 - 1)" by code_simp
  have "\<exists>p. 1 \<le> p \<and> p < (2::nat) \<and>
          containsSuffixEqualsToPrefix (Operand_char (CHR ''a'') ''ab'') ! p \<and>
          containsPrefixEqualsToSuffix (Operand_char (CHR ''b'') ''ab'') ! (2 - p)"
    using s p by (intro exI [of _ 1]) simp
  then show ?thesis
    using concat_matchesWholeW [OF l r] l r by blast
qed

text \<open>
  Claim C3.  For two operands built for the same reference string of length \<open>L\<close> and a
  window \<open>0 \<le> i < L\<close>, \<open>1 \<le> len \<le> L - i\<close>, the concatenation's table holds at
  \<open>(i, len)\<close> iff some split point \<open>0 \<le> k \<le> len\<close> puts the first \<open>k\<close> characters of
  the window in the left language and the remaining \<open>len - k\<close> in the right one, where
  \<open>k = 0\<close> means \<open>left.hasEpsilon\<close> with \<open>right.substringTable[i][len]\<close> and
  \<open>k = len\<close> means \<open>right.hasEpsilon\<close> with \<open>left.substringTable[i][len]\<close>; and the
  concatenation has epsilon iff both operands have it.
\<close>

theorem concat_substringTable:
  assumes "operandFor L left" and "operandFor L right"
    and "i < L" and "1 \<le> len" and "len \<le> L - i"
  shows "(containsSubstring (Operand_times left right) ! i ! len \<longleftrightarrow>
            (\<exists>k\<le>len.
               if k = 0 then containsEpsilon left \<and> containsSubstring right ! i ! len
               else if k = len then containsEpsilon right \<and> containsSubstring left ! i ! len
               else containsSubstring left ! i ! k \<and>
                    containsSubstring right ! (i + k) ! (len - k))) \<and>
         (containsEpsilon (Operand_times left right) \<longleftrightarrow>
            containsEpsilon left \<and> containsEpsilon right)"
proof -
  have wl: "wordLength left = L" using assms(1) by (simp add: operandFor_def)
  have eq: "splitAt left right i len k =
      (if k = 0 then containsEpsilon left \<and> containsSubstring right ! i ! len
       else if k = len then containsEpsilon right \<and> containsSubstring left ! i ! len
       else containsSubstring left ! i ! k \<and> containsSubstring right ! (i + k) ! (len - k))"
    if "k \<le> len" for k
    using that by (simp add: splitAt_def)
  have "containsSubstring (Operand_times left right) ! i ! len =
          (\<exists>k\<le>len. splitAt left right i len k)"
    using assms(3-5) wl by (simp add: times_sub)
  also have "\<dots> =
      (\<exists>k\<le>len.
         if k = 0 then containsEpsilon left \<and> containsSubstring right ! i ! len
         else if k = len then containsEpsilon right \<and> containsSubstring left ! i ! len
         else containsSubstring left ! i ! k \<and> containsSubstring right ! (i + k) ! (len - k))"
    by (rule ex_cong1) (simp add: eq cong: conj_cong)
  finally show ?thesis by simp
qed

theorem concat_substringTable_witness:
  "operandFor 2 (Operand_char (CHR ''a'') ''ab'') \<and>
   operandFor 2 (Operand_char (CHR ''b'') ''ab'') \<and> (0::nat) < 2 \<and> (1::nat) \<le> 2 \<and>
   (2::nat) \<le> 2 - 0 \<and>
   containsSubstring
     (Operand_times (Operand_char (CHR ''a'') ''ab'') (Operand_char (CHR ''b'') ''ab'')) ! 0 ! 2 \<and>
   \<not> containsEpsilon
     (Operand_times (Operand_char (CHR ''a'') ''ab'') (Operand_char (CHR ''b'') ''ab''))"
proof -
  have l: "operandFor 2 (Operand_char (CHR ''a'') ''ab'')" by code_simp
  have r: "operandFor 2 (Operand_char (CHR ''b'') ''ab'')" by code_simp
  have a: "containsSubstring (Operand_char (CHR ''a'') ''ab'') ! 0 ! 1" by code_simp
  have b: "containsSubstring (Operand_char (CHR ''b'') ''ab'') ! (0 + 1) ! (2 - 1)" by code_simp
  have e: "\<not> containsEpsilon (Operand_char (CHR ''a'') ''ab'')" by code_simp
  have "\<exists>k\<le>2::nat.
          if k = 0 then containsEpsilon (Operand_char (CHR ''a'') ''ab'') \<and>
                        containsSubstring (Operand_char (CHR ''b'') ''ab'') ! 0 ! 2
          else if k = 2 then containsEpsilon (Operand_char (CHR ''b'') ''ab'') \<and>
                             containsSubstring (Operand_char (CHR ''a'') ''ab'') ! 0 ! 2
          else containsSubstring (Operand_char (CHR ''a'') ''ab'') ! 0 ! k \<and>
               containsSubstring (Operand_char (CHR ''b'') ''ab'') ! (0 + k) ! (2 - k)"
    using a b by (intro exI [of _ 1]) simp
  then show ?thesis
    using concat_substringTable [OF l r, of 0 2] l r e by simp
qed

text \<open>
  Claim C4.  For two operands built for the same reference string of length \<open>L\<close> and
  \<open>1 \<le> p < L\<close>, the concatenation's \<open>suffixIsPrefixOfW[p]\<close> holds iff
  \<open>right.suffixIsPrefixOfW[p]\<close>, or \<open>left.suffixIsPrefixOfW[p]\<close> with
  \<open>right.hasEpsilon\<close>, or some \<open>1 \<le> q < p\<close> has \<open>left.suffixIsPrefixOfW[q]\<close> and
  \<open>right.substringTable[q][p - q]\<close>; symmetrically, for \<open>1 \<le> s < L\<close>, its
  \<open>prefixIsSuffixOfW[s]\<close> holds iff \<open>left.prefixIsSuffixOfW[s]\<close>, or
  \<open>left.hasEpsilon\<close> with \<open>right.prefixIsSuffixOfW[s]\<close>, or some \<open>1 \<le> r < s\<close> has
  \<open>left.substringTable[L - s][s - r]\<close> and \<open>right.prefixIsSuffixOfW[r]\<close>.
\<close>

theorem concat_boundary_vectors:
  assumes "operandFor L left" and "operandFor L right"
    and "1 \<le> p" and "p < L" and "1 \<le> s" and "s < L"
  shows "(containsSuffixEqualsToPrefix (Operand_times left right) ! p \<longleftrightarrow>
            containsSuffixEqualsToPrefix right ! p \<or>
            (containsSuffixEqualsToPrefix left ! p \<and> containsEpsilon right) \<or>
            (\<exists>q. 1 \<le> q \<and> q < p \<and> containsSuffixEqualsToPrefix left ! q \<and>
                 containsSubstring right ! q ! (p - q))) \<and>
         (containsPrefixEqualsToSuffix (Operand_times left right) ! s \<longleftrightarrow>
            containsPrefixEqualsToSuffix left ! s \<or>
            (containsEpsilon left \<and> containsPrefixEqualsToSuffix right ! s) \<or>
            (\<exists>r. 1 \<le> r \<and> r < s \<and> containsSubstring left ! (L - s) ! (s - r) \<and>
                 containsPrefixEqualsToSuffix right ! r))"
proof -
  have wl: "wordLength left = L" using assms(1) by (simp add: operandFor_def)
  show ?thesis
    using assms(3-6) by (simp add: times_suf times_pre wl)
qed

theorem concat_boundary_vectors_witness:
  "operandFor 3 (Operand_char (CHR ''a'') ''aba'') \<and>
   operandFor 3 (Operand_char (CHR ''b'') ''aba'') \<and>
   (1::nat) \<le> 2 \<and> (2::nat) < 3 \<and> (1::nat) \<le> 2 \<and> (2::nat) < 3 \<and>
   containsSuffixEqualsToPrefix
     (Operand_times (Operand_char (CHR ''a'') ''aba'') (Operand_char (CHR ''b'') ''aba'')) ! 2 \<and>
   \<not> containsPrefixEqualsToSuffix
     (Operand_times (Operand_char (CHR ''a'') ''aba'') (Operand_char (CHR ''b'') ''aba'')) ! 2"
proof -
  have l: "operandFor 3 (Operand_char (CHR ''a'') ''aba'')" by code_simp
  have r: "operandFor 3 (Operand_char (CHR ''b'') ''aba'')" by code_simp
  have a: "containsSuffixEqualsToPrefix (Operand_char (CHR ''a'') ''aba'') ! 1" by code_simp
  have b: "containsSubstring (Operand_char (CHR ''b'') ''aba'') ! 1 ! (2 - 1)" by code_simp
  have c: "\<not> containsPrefixEqualsToSuffix (Operand_char (CHR ''a'') ''aba'') ! 2" by code_simp
  have d: "\<not> containsEpsilon (Operand_char (CHR ''a'') ''aba'')" by code_simp
  have e: "\<not> containsPrefixEqualsToSuffix (Operand_char (CHR ''b'') ''aba'') ! 1" by code_simp
  have ex: "\<exists>q. 1 \<le> q \<and> q < (2::nat) \<and>
                containsSuffixEqualsToPrefix (Operand_char (CHR ''a'') ''aba'') ! q \<and>
                containsSubstring (Operand_char (CHR ''b'') ''aba'') ! q ! (2 - q)"
    using a b by (intro exI [of _ 1]) simp
  have nex: "\<not> (\<exists>r. 1 \<le> r \<and> r < (2::nat) \<and>
                containsSubstring (Operand_char (CHR ''a'') ''aba'') ! (3 - 2) ! (2 - r) \<and>
                containsPrefixEqualsToSuffix (Operand_char (CHR ''b'') ''aba'') ! r)"
  proof
    assume "\<exists>r. 1 \<le> r \<and> r < (2::nat) \<and>
                containsSubstring (Operand_char (CHR ''a'') ''aba'') ! (3 - 2) ! (2 - r) \<and>
                containsPrefixEqualsToSuffix (Operand_char (CHR ''b'') ''aba'') ! r"
    then obtain r where "1 \<le> r" "r < (2::nat)"
      "containsPrefixEqualsToSuffix (Operand_char (CHR ''b'') ''aba'') ! r" by blast
    moreover from this have "r = 1" by simp
    ultimately show False using e by simp
  qed
  show ?thesis
    using concat_boundary_vectors [OF l r, of 2 2] l r ex nex c d by simp
qed

text \<open>
  Claim C5.  On a Kleene-star token the evaluator pops one operand \<open>e\<close> and pushes the
  result of the loop that starts from \<open>power = accumulated =\<close> epsilon leaf and runs
  \<open>2 * L + 2\<close> times \<open>power := power * e; accumulated := accumulated + power\<close>.  The
  pushed operand is the union of the powers \<open>0, \<dots>, 2 * L + 2\<close> of \<open>e\<close>, and the
  \<open>assert\<close> of \<open>operator+\<close> never fails inside the loop.
\<close>

theorem kleeneStar_union_of_powers:
  "calculateKleeneStar word (e # stack) =
     Inr (unionOfPowers e word (2 * length word + 2) # stack) \<and>
   kleeneLoop (2 * length word + 2) e (Operand_char EPSILON word) (Operand_char EPSILON word) =
     Inr (unionOfPowers e word (2 * length word + 2))"
proof
  show "calculateKleeneStar word (e # stack) =
          Inr (unionOfPowers e word (2 * length word + 2) # stack)"
    by (rule calculateKleeneStar_eq)
next
  show "kleeneLoop (2 * length word + 2) e (Operand_char EPSILON word)
          (Operand_char EPSILON word) =
        Inr (unionOfPowers e word (2 * length word + 2))"
    using kleeneLoop_powers [of "2 * length word + 2" e word 0]
    by (simp only: opPower.simps(1) unionOfPowers.simps(1) add_0)
qed

text \<open>
  Claim C6.  The bound \<open>2 * L + 2\<close> of the Kleene-star loop is sufficient: running the
  loop for \<open>d\<close> further iterations returns the same accumulated operand, so every one
  of its fields is unchanged.  (The union is already stable from \<open>L + 1\<close> iterations
  on, see \<open>unionOfPowers_stable\<close>.)
\<close>

theorem kleeneStar_bound_sufficient:
  "\<exists>acc.
     kleeneLoop (2 * length word + 2) e (Operand_char EPSILON word) (Operand_char EPSILON word) =
       Inr acc \<and>
     kleeneLoop (2 * length word + 2 + d) e (Operand_char EPSILON word) (Operand_char EPSILON word) =
       Inr acc"
proof -
  have a: "kleeneLoop n e (Operand_char EPSILON word) (Operand_char EPSILON word) =
      Inr (unionOfPowers e word n)" for n
    using kleeneLoop_powers [of n e word 0]
    by (simp only: opPower.simps(1) unionOfPowers.simps(1) add_0)
  have "unionOfPowers e word (2 * length word + 2 + d) = unionOfPowers e word (2 * length word + 2)"
    by (rule unionOfPowers_stable) simp
  then show ?thesis using a by simp
qed

text \<open>
  Claim C10.  Whatever operand \<open>e\<close> is on top of the stack and whatever the reference
  string, the operand pushed by the Kleene-star case has \<open>hasEpsilon = true\<close>.
\<close>

theorem kleeneStar_hasEpsilon:
  "\<exists>r. calculateKleeneStar word (e # stack) = Inr (r # stack) \<and> containsEpsilon r"
  using calculateKleeneStar_eq [of word e stack] unionOfPowers_eps [of e word "2 * length word + 2"]
  by blast

text \<open>
  Claim C9.  The epsilon leaf is a two-sided identity of concatenation: for an operand
  \<open>A\<close> built for the reference string \<open>W\<close>, both \<open>A * epsilon\<close> and \<open>epsilon * A\<close>
  have the same \<open>substringTable\<close>, \<open>hasEpsilon\<close>, \<open>matchesWholeW\<close>,
  \<open>suffixIsPrefixOfW\<close> and \<open>prefixIsSuffixOfW\<close> as \<open>A\<close>, on the index ranges the data
  model gives these fields.  (The vectors of the program have one more slot, at index
  \<open>L\<close>, which no entry inside these ranges depends on: a leaf sets it when \<open>L = 1\<close>,
  \<open>operator+\<close> carries it along and \<open>operator*\<close> leaves it zero.)
\<close>

theorem concat_epsilon_identity:
  assumes "operandFor (length W) A"
  shows "sameFields (length W) (Operand_times A (Operand_char EPSILON W)) A \<and>
         sameFields (length W) (Operand_times (Operand_char EPSILON W) A) A"
proof -
  have wl: "wordLength A = length W" using assms by (simp add: operandFor_def)
  have r: "containsSubstring (Operand_times A (Operand_char EPSILON W)) ! i ! len =
           containsSubstring A ! i ! len"
    if "i < length W" "1 \<le> len" "len \<le> length W - i" for i len
  proof -
    have "splitAt A (Operand_char EPSILON W) i len k = (k = len \<and> containsSubstring A ! i ! len)"
      if "k \<le> len" for k
      using that \<open>i < length W\<close> \<open>1 \<le> len\<close> \<open>len \<le> length W - i\<close>
      by (auto simp: splitAt_def)
    then have "(\<exists>k\<le>len. splitAt A (Operand_char EPSILON W) i len k) = containsSubstring A ! i ! len"
      by auto
    then show ?thesis using that wl by (simp add: times_sub)
  qed
  have l: "containsSubstring (Operand_times (Operand_char EPSILON W) A) ! i ! len =
           containsSubstring A ! i ! len"
    if "i < length W" "1 \<le> len" "len \<le> length W - i" for i len
  proof -
    have "splitAt (Operand_char EPSILON W) A i len k = (k = 0 \<and> containsSubstring A ! i ! len)"
      if "k \<le> len" for k
      using that \<open>i < length W\<close> \<open>1 \<le> len\<close> \<open>len \<le> length W - i\<close>
      by (auto simp: splitAt_def)
    then have "(\<exists>k\<le>len. splitAt (Operand_char EPSILON W) A i len k) = containsSubstring A ! i ! len"
      by auto
    then show ?thesis using that by (simp add: times_sub)
  qed
  have 1: "sameFields (length W) (Operand_times A (Operand_char EPSILON W)) A"
    unfolding sameFields_def
    by (intro conjI ballI) (auto simp add: times_cw times_suf times_pre wl r)
  have 2: "sameFields (length W) (Operand_times (Operand_char EPSILON W) A) A"
    unfolding sameFields_def
    by (intro conjI ballI) (auto simp add: times_cw times_suf times_pre l)
  show ?thesis using 1 2 by simp
qed

theorem concat_epsilon_identity_witness:
  "operandFor (length ''ab'') (Operand_char (CHR ''a'') ''ab'') \<and>
   sameFields (length ''ab'')
     (Operand_times (Operand_char (CHR ''a'') ''ab'') (Operand_char EPSILON ''ab''))
     (Operand_char (CHR ''a'') ''ab'') \<and>
   sameFields (length ''ab'')
     (Operand_times (Operand_char EPSILON ''ab'') (Operand_char (CHR ''a'') ''ab''))
     (Operand_char (CHR ''a'') ''ab'')"
proof -
  have h: "operandFor (length ''ab'') (Operand_char (CHR ''a'') ''ab'')" by code_simp
  show ?thesis using concat_epsilon_identity [OF h] h by blast
qed

section \<open>The evaluator and the outer search\<close>

subsection \<open>Loops that may throw\<close>

lemma forEach_total:
  assumes "\<And>x s. x \<in> set xs \<Longrightarrow> body x s = Inr (g x s)"
  shows "forEach xs body s = Inr (fold g xs s)"
  using assms by (induction xs arbitrary: s) simp_all

lemma forEach_fails:
  assumes "x \<in> set xs" and "\<And>s. \<exists>e. body x s = Inl e"
  shows "\<exists>e. forEach xs body s = Inl e"
  using assms
proof (induction xs arbitrary: s)
  case Nil
  then show ?case by simp
next
  case (Cons y ys)
  show ?case
  proof (cases "body y s")
    case (Inl e)
    then show ?thesis by simp
  next
    case (Inr s')
    have "x \<noteq> y" using Inr Cons.prems(2) [of s] by auto
    then have "x \<in> set ys" using Cons.prems(1) by simp
    then have "\<exists>e. forEach ys body s' = Inl e" using Cons.prems(2) by (rule Cons.IH)
    then show ?thesis using Inr by simp
  qed
qed

lemma forEach_error_source:
  assumes "forEach xs body s = Inl e"
  shows "\<exists>x\<in>set xs. \<exists>s'. body x s' = Inl e"
  using assms
proof (induction xs arbitrary: s)
  case Nil
  then show ?case by simp
next
  case (Cons y ys)
  show ?case
  proof (cases "body y s")
    case (Inl e')
    then show ?thesis using Cons.prems by auto
  next
    case (Inr s')
    then have "forEach ys body s' = Inl e" using Cons.prems by simp
    then have "\<exists>x\<in>set ys. \<exists>s'. body x s' = Inl e" by (rule Cons.IH)
    then show ?thesis by auto
  qed
qed

subsection \<open>The word check\<close>

lemma accepted_iff:
  "(element = EPSILON \<or> \<not> isSymbolOfAlphabet element) =
     (element \<notin> {CHR ''a'', CHR ''b'', CHR ''c''})"
  unfolding isSymbolOfAlphabet_def EPSILON_def by auto

lemma checkWordLoop_accept:
  "x \<in> {CHR ''a'', CHR ''b'', CHR ''c''} \<Longrightarrow> checkWordLoop (x # xs) = checkWordLoop xs"
  by (simp only: checkWordLoop.simps accepted_iff simp_thms if_False)

lemma checkWordLoop_reject:
  "x \<notin> {CHR ''a'', CHR ''b'', CHR ''c''} \<Longrightarrow>
   \<exists>msg. checkWordLoop (x # xs) = Inl (ParseException msg)"
  by (simp only: checkWordLoop.simps accepted_iff simp_thms if_True sum.inject error.inject)

lemma checkWordLoop_ok:
  "set w \<subseteq> {CHR ''a'', CHR ''b'', CHR ''c''} \<Longrightarrow> checkWordLoop w = Inr ()"
proof (induction w)
  case Nil
  show ?case by (simp only: checkWordLoop.simps)
next
  case (Cons x xs)
  then have x: "x \<in> {CHR ''a'', CHR ''b'', CHR ''c''}"
    and xs: "set xs \<subseteq> {CHR ''a'', CHR ''b'', CHR ''c''}"
    by simp_all
  show ?case
    unfolding checkWordLoop_accept [OF x] by (rule Cons.IH [OF xs])
qed

lemma checkWord_ok:
  "w \<noteq> [] \<Longrightarrow> set w \<subseteq> {CHR ''a'', CHR ''b'', CHR ''c''} \<Longrightarrow> checkWord w = Inr ()"
  by (simp only: checkWord_def checkWordLoop_ok if_False)

lemma checkWordLoop_bad:
  assumes "c \<in> set w" and "c \<notin> {CHR ''a'', CHR ''b'', CHR ''c''}"
  shows "\<exists>msg. checkWordLoop w = Inl (ParseException msg)"
  using assms(1)
proof (induction w)
  case Nil
  then show ?case by simp
next
  case (Cons x xs)
  show ?case
  proof (cases "x \<in> {CHR ''a'', CHR ''b'', CHR ''c''}")
    case False
    then show ?thesis by (rule checkWordLoop_reject)
  next
    case True
    then have "c \<noteq> x" using assms(2) by blast
    then have "c \<in> set xs" using Cons.prems by simp
    then have "\<exists>msg. checkWordLoop xs = Inl (ParseException msg)"
      by (rule Cons.IH)
    then show ?thesis unfolding checkWordLoop_accept [OF True] .
  qed
qed

lemma checkWord_bad:
  assumes "c \<in> set w" and "c \<notin> {CHR ''a'', CHR ''b'', CHR ''c''}"
  shows "\<exists>msg. checkWord w = Inl (ParseException msg)"
proof -
  have "w \<noteq> []" using assms(1) by auto
  then have "checkWord w = checkWordLoop w" by (simp only: checkWord_def if_False)
  then show ?thesis using checkWordLoop_bad [OF assms] by (simp only:)
qed

lemma calculateValue_bad_word:
  assumes "c \<in> set w" and "c \<notin> {CHR ''a'', CHR ''b'', CHR ''c''}"
  shows "\<exists>msg. \<forall>ex. calculateValueOfExpression ex w = Inl (ParseException msg)"
proof -
  from checkWord_bad [OF assms] obtain msg where
    "checkWord w = Inl (ParseException msg)" ..
  then have "\<forall>ex. calculateValueOfExpression ex w = Inl (ParseException msg)"
    by (simp only: calculateValueOfExpression_def sum.case simp_thms)
  then show ?thesis ..
qed

lemma calculateValue_empty_word:
  "\<exists>msg. \<forall>ex. calculateValueOfExpression ex [] = Inl (ParseException msg)"
proof -
  have "checkWord [] = Inl (ParseException ''Word is empty'')"
    by (simp only: checkWord_def simp_thms if_True)
  then have "\<forall>ex. calculateValueOfExpression ex [] = Inl (ParseException ''Word is empty'')"
    by (simp only: calculateValueOfExpression_def sum.case simp_thms)
  then show ?thesis ..
qed

lemma checkWordLoop_no_assert: "checkWordLoop w \<noteq> Inl AssertionFailure"
proof (induction w)
  case Nil
  show ?case by (simp only: checkWordLoop.simps) simp
next
  case (Cons x xs)
  show ?case
  proof (cases "x \<in> {CHR ''a'', CHR ''b'', CHR ''c''}")
    case True
    show ?thesis unfolding checkWordLoop_accept [OF True] by (rule Cons.IH)
  next
    case False
    from checkWordLoop_reject [OF False, of xs] obtain msg where
      "checkWordLoop (x # xs) = Inl (ParseException msg)" ..
    then show ?thesis by (simp only: sum.inject error.distinct simp_thms)
  qed
qed

lemma checkWord_no_assert: "checkWord w \<noteq> Inl AssertionFailure"
proof (cases "w = []")
  case True
  then show ?thesis by (simp only: checkWord_def if_True sum.inject error.distinct simp_thms)
next
  case False
  then show ?thesis by (simp only: checkWord_def if_False checkWordLoop_no_assert simp_thms)
qed

subsection \<open>The token loop\<close>

lemma calculateOperator_PLUS:
  "wordLength l = wordLength r \<Longrightarrow>
   calculateOperator w PLUS (r # l # rest) = Inr (Operand_plus_fields l r # rest)"
  by (simp add: calculateOperator_def Operand_plus_eq Let_def)

lemma calculateOperator_MULTIPLY:
  "calculateOperator w MULTIPLY (r # l # rest) = Inr (Operand_times l r # rest)"
  by (simp add: calculateOperator_def Let_def)

lemma calculateOperator_STAR:
  "calculateOperator w KLEENE_STAR (e # rest) =
     Inr (unionOfPowers e w (2 * length w + 2) # rest)"
  by (simp add: calculateOperator_def calculateKleeneStar_eq)

lemma calculateOperator_missing:
  assumes "currentOperator \<noteq> KLEENE_STAR" and "length st < 2"
  shows "\<exists>msg. calculateOperator w currentOperator st = Inl (ParseException msg)"
proof -
  have "calculateOperator w currentOperator st = Inl (ParseException ''Missing operands'')"
    using assms by (simp only: calculateOperator_def if_False if_True)
  then show ?thesis ..
qed

lemma calculateOperator_STAR_missing:
  "\<exists>msg. calculateOperator w KLEENE_STAR [] = Inl (ParseException msg)"
proof -
  have "length ([]::Operand list) < 1" by simp
  then have "calculateOperator w KLEENE_STAR [] = Inl (ParseException ''Missing operands'')"
    by (simp only: calculateOperator_def calculateKleeneStar_def if_True simp_thms)
  then show ?thesis ..
qed

lemma evalLoop_operator:
  assumes "operatorCode token = Inr currentOperator" and "isOperator token"
  shows "evalLoop w (token # rest) st =
           (case calculateOperator w currentOperator st of
              Inl e \<Rightarrow> Inl e
            | Inr st' \<Rightarrow> evalLoop w rest st')"
  using assms by (simp only: evalLoop.simps if_True sum.case)

lemma evalLoop_symbol:
  assumes "\<not> isOperator token" and "isSymbolOfAlphabet token"
  shows "evalLoop w (token # rest) st = evalLoop w rest (Operand_char token w # st)"
  using assms by (simp only: evalLoop.simps if_True if_False)

lemma evalLoop_unknown:
  assumes "\<not> isOperator token" and "\<not> isSymbolOfAlphabet token"
  shows "\<exists>msg. evalLoop w (token # rest) st = Inl (ParseException msg)"
proof -
  have "evalLoop w (token # rest) st =
          Inl (ParseException (''Unknown symbol in expression: '' @ [token]))"
    using assms by (simp only: evalLoop.simps if_False)
  then show ?thesis ..
qed

lemma token_plus: "isOperator (CHR ''+'')" "operatorCode (CHR ''+'') = Inr PLUS"
  by (simp_all add: isOperator_def operatorCode_def)

lemma token_times: "isOperator (CHR ''.'')" "operatorCode (CHR ''.'') = Inr MULTIPLY"
  by (simp_all add: isOperator_def operatorCode_def)

lemma token_star: "isOperator (CHR ''*'')" "operatorCode (CHR ''*'') = Inr KLEENE_STAR"
  by (simp_all add: isOperator_def operatorCode_def)

lemma token_symbol:
  "token \<in> {CHR ''a'', CHR ''b'', CHR ''c'', CHR ''1''} \<Longrightarrow>
   \<not> isOperator token \<and> isSymbolOfAlphabet token"
  by (auto simp: isOperator_def isSymbolOfAlphabet_def EPSILON_def)

lemma token_other:
  "token \<notin> {CHR ''+'', CHR ''.'', CHR ''*'', CHR ''a'', CHR ''b'', CHR ''c'', CHR ''1''} \<Longrightarrow>
   \<not> isOperator token \<and> \<not> isSymbolOfAlphabet token"
  by (auto simp: isOperator_def isSymbolOfAlphabet_def EPSILON_def)

lemma stackDepth_binary:
  "token = CHR ''+'' \<or> token = CHR ''.'' \<Longrightarrow>
   stackDepth (token # rest) d = (if d < 2 then None else stackDepth rest (d - 1))"
  by (simp only: stackDepth.simps if_True)

lemma stackDepth_star:
  "stackDepth (CHR ''*'' # rest) d = (if d < 1 then None else stackDepth rest d)"
  by simp

lemma stackDepth_symbol:
  "token \<in> {CHR ''a'', CHR ''b'', CHR ''c'', CHR ''1''} \<Longrightarrow>
   stackDepth (token # rest) d = stackDepth rest (d + 1)"
  by auto

lemma stackDepth_other:
  "token \<notin> {CHR ''+'', CHR ''.'', CHR ''*'', CHR ''a'', CHR ''b'', CHR ''c'', CHR ''1''} \<Longrightarrow>
   stackDepth (token # rest) d = None"
  by auto

declare stackDepth.simps(2) [simp del]

lemma evalLoop_result:
  assumes "\<forall>x\<in>set st. wordLength x = length w"
  shows "case stackDepth ts (length st) of
           Some d \<Rightarrow> \<exists>st'. evalLoop w ts st = Inr st' \<and> length st' = d
         | None \<Rightarrow> \<exists>msg. evalLoop w ts st = Inl (ParseException msg)"
  using assms
proof (induction ts arbitrary: st)
  case Nil
  then show ?case by simp
next
  case (Cons token rest)
  note inv = Cons.prems
  have step: ?case
    if ev: "evalLoop w (token # rest) st = evalLoop w rest st1"
      and sd: "stackDepth (token # rest) (length st) = stackDepth rest (length st1)"
      and inv1: "\<forall>x\<in>set st1. wordLength x = length w" for st1
    unfolding ev sd by (rule Cons.IH [OF inv1])
  have fail: ?case
    if "\<exists>msg. evalLoop w (token # rest) st = Inl (ParseException msg)"
      and "stackDepth (token # rest) (length st) = None"
    using that by (simp only: option.case)
  consider (binary) "token = CHR ''+'' \<or> token = CHR ''.''" | (star) "token = CHR ''*''"
    | (sym) "token \<in> {CHR ''a'', CHR ''b'', CHR ''c'', CHR ''1''}"
    | (other) "token \<notin> {CHR ''+'', CHR ''.'', CHR ''*'', CHR ''a'', CHR ''b'', CHR ''c'', CHR ''1''}"
    by blast
  then show ?case
  proof cases
    case binary
    then obtain currentOperator where
      oc: "operatorCode token = Inr currentOperator" "isOperator token"
        "currentOperator \<noteq> KLEENE_STAR"
        "currentOperator = PLUS \<or> currentOperator = MULTIPLY"
      using token_plus token_times by auto
    show ?thesis
    proof (cases "length st < 2")
      case True
      from calculateOperator_missing [OF oc(3) True, of w] obtain msg where
        "calculateOperator w currentOperator st = Inl (ParseException msg)" ..
      then have "evalLoop w (token # rest) st = Inl (ParseException msg)"
        by (simp only: evalLoop_operator [OF oc(1,2)] sum.case)
      then have "\<exists>msg. evalLoop w (token # rest) st = Inl (ParseException msg)" ..
      moreover have "stackDepth (token # rest) (length st) = None"
        using True by (simp only: stackDepth_binary [OF binary] if_True)
      ultimately show ?thesis by (rule fail)
    next
      case False
      then obtain r l st0 where st: "st = r # l # st0"
        by (cases st; cases "tl st") auto
      have wl: "wordLength l = wordLength r" using inv st by simp
      define v where "v = (if currentOperator = PLUS then Operand_plus_fields l r
                           else Operand_times l r)"
      have co: "calculateOperator w currentOperator st = Inr (v # st0)"
        using oc(4) wl
        by (auto simp: v_def st calculateOperator_PLUS calculateOperator_MULTIPLY)
      have "wordLength v = length w" using inv st by (simp add: v_def)
      then have inv1: "\<forall>x\<in>set (v # st0). wordLength x = length w"
        using inv st by simp
      have ev: "evalLoop w (token # rest) st = evalLoop w rest (v # st0)"
        by (simp only: evalLoop_operator [OF oc(1,2)] co sum.case)
      have sd: "stackDepth (token # rest) (length st) = stackDepth rest (length (v # st0))"
        using False st by (simp only: stackDepth_binary [OF binary] if_False) simp
      show ?thesis by (rule step [OF ev sd inv1])
    qed
  next
    case star
    show ?thesis
    proof (cases st)
      case Nil
      from calculateOperator_STAR_missing [of w] obtain msg where
        "calculateOperator w KLEENE_STAR [] = Inl (ParseException msg)" ..
      then have "evalLoop w (token # rest) st = Inl (ParseException msg)"
        using token_star
        by (simp only: star Nil evalLoop_operator [OF token_star(2,1)] sum.case)
      then have "\<exists>msg. evalLoop w (token # rest) st = Inl (ParseException msg)" ..
      moreover have "stackDepth (token # rest) (length st) = None"
        using Nil by (simp add: star stackDepth_star)
      ultimately show ?thesis by (rule fail)
    next
      case (Cons e st0)
      have inv1: "\<forall>x\<in>set (unionOfPowers e w (2 * length w + 2) # st0). wordLength x = length w"
        using inv Cons by simp
      have ev: "evalLoop w (token # rest) st =
                evalLoop w rest (unionOfPowers e w (2 * length w + 2) # st0)"
        by (simp only: star Cons evalLoop_operator [OF token_star(2,1)]
              calculateOperator_STAR sum.case)
      have sd: "stackDepth (token # rest) (length st) =
                stackDepth rest (length (unionOfPowers e w (2 * length w + 2) # st0))"
        using Cons by (simp add: star stackDepth_star)
      show ?thesis by (rule step [OF ev sd inv1])
    qed
  next
    case sym
    have inv1: "\<forall>x\<in>set (Operand_char token w # st). wordLength x = length w"
      using inv by simp
    have ev: "evalLoop w (token # rest) st = evalLoop w rest (Operand_char token w # st)"
      using token_symbol [OF sym] by (intro evalLoop_symbol) simp_all
    have sd: "stackDepth (token # rest) (length st) =
              stackDepth rest (length (Operand_char token w # st))"
      by (simp only: stackDepth_symbol [OF sym]) simp
    show ?thesis by (rule step [OF ev sd inv1])
  next
    case other
    have "\<exists>msg. evalLoop w (token # rest) st = Inl (ParseException msg)"
      using token_other [OF other] by (intro evalLoop_unknown) simp_all
    moreover have "stackDepth (token # rest) (length st) = None"
      by (rule stackDepth_other [OF other])
    ultimately show ?thesis by (rule fail)
  qed
qed

lemma evalLoop_fresh:
  "case stackDepth ts 0 of
     Some d \<Rightarrow> \<exists>st'. evalLoop w ts [] = Inr st' \<and> length st' = d
   | None \<Rightarrow> \<exists>msg. evalLoop w ts [] = Inl (ParseException msg)"
  using evalLoop_result [where st = "[]" and w = w and ts = ts] by simp

lemma calculateValue_wellFormed:
  assumes "wellFormedPostfix (expression ex)" and "operands ex = []"
    and "w \<noteq> []" and "set w \<subseteq> {CHR ''a'', CHR ''b'', CHR ''c''}"
  shows "\<exists>r. calculateValueOfExpression ex w = Inr r"
proof -
  obtain st' where ev: "evalLoop w (expression ex) [] = Inr st'" and len: "length st' = 1"
    using evalLoop_fresh [where ts = "expression ex" and w = w] assms(1)
    by (auto simp: wellFormedPostfix_def)
  have "\<not> length st' > 1" "\<not> length st' < 1" using len by simp_all
  then have "calculateValueOfExpression ex w = Inr (hd st')"
    by (simp only: calculateValueOfExpression_def checkWord_ok [OF assms(3,4)] assms(2) ev
          sum.case if_False)
  then show ?thesis ..
qed

text \<open>
  On a reference string that passes \<open>checkWord\<close>, the well-formed expressions are
  exactly those the evaluator accepts.
\<close>

lemma wellFormedPostfix_iff_accepted:
  assumes "w \<noteq> []" and "set w \<subseteq> {CHR ''a'', CHR ''b'', CHR ''c''}"
  shows "wellFormedPostfix e \<longleftrightarrow>
           (\<exists>r. calculateValueOfExpression \<lparr>operands = [], expression = e\<rparr> w = Inr r)"
proof
  assume "wellFormedPostfix e"
  then show "\<exists>r. calculateValueOfExpression \<lparr>operands = [], expression = e\<rparr> w = Inr r"
    using assms by (intro calculateValue_wellFormed) simp_all
next
  assume "\<exists>r. calculateValueOfExpression \<lparr>operands = [], expression = e\<rparr> w = Inr r"
  then obtain r where r: "calculateValueOfExpression \<lparr>operands = [], expression = e\<rparr> w = Inr r" ..
  have cw: "checkWord w = Inr ()" by (rule checkWord_ok [OF assms])
  have sel: "expression \<lparr>operands = [], expression = e\<rparr> = e"
    "operands \<lparr>operands = [], expression = e\<rparr> = []" by simp_all
  show "wellFormedPostfix e"
  proof (cases "stackDepth e 0")
    case None
    then obtain msg where "evalLoop w e [] = Inl (ParseException msg)"
      using evalLoop_fresh [where ts = e and w = w] by (simp only: option.case) blast
    then have "calculateValueOfExpression \<lparr>operands = [], expression = e\<rparr> w =
                 Inl (ParseException msg)"
      by (simp only: calculateValueOfExpression_def cw sel sum.case)
    then show ?thesis using r by (simp only: sum.distinct)
  next
    case (Some d)
    then obtain st' where st': "evalLoop w e [] = Inr st'" "length st' = d"
      using evalLoop_fresh [where ts = e and w = w] by (simp only: option.case) blast
    have "d = 1"
    proof (rule ccontr)
      assume "d \<noteq> 1"
      then consider "length st' > 1" | "\<not> length st' > 1" "length st' < 1"
        using st'(2) by linarith
      then obtain msg where
        "calculateValueOfExpression \<lparr>operands = [], expression = e\<rparr> w =
           Inl (ParseException msg)"
      proof cases
        case 1
        then have "calculateValueOfExpression \<lparr>operands = [], expression = e\<rparr> w =
                     Inl (ParseException ''Too much operands'')"
          by (simp only: calculateValueOfExpression_def cw sel st'(1) sum.case if_True)
        then show ?thesis by (rule that)
      next
        case 2
        then have "calculateValueOfExpression \<lparr>operands = [], expression = e\<rparr> w =
                     Inl (ParseException ''Missing operands'')"
          by (simp only: calculateValueOfExpression_def cw sel st'(1) sum.case if_True if_False)
        then show ?thesis by (rule that)
      qed
      then show False using r by (simp only: sum.distinct)
    qed
    then show ?thesis using Some by (simp only: wellFormedPostfix_def)
  qed
qed

lemma calculateValue_no_assert:
  assumes "operands ex = []"
  shows "calculateValueOfExpression ex w \<noteq> Inl AssertionFailure"
proof (cases "checkWord w")
  case (Inl e)
  then have "calculateValueOfExpression ex w = Inl e"
    by (simp only: calculateValueOfExpression_def sum.case)
  then show ?thesis using Inl checkWord_no_assert [of w] by (simp only: sum.inject) blast
next
  case (Inr u)
  show ?thesis
  proof (cases "evalLoop w (expression ex) []")
    case (Inl e)
    have "e \<noteq> AssertionFailure"
    proof (cases "stackDepth (expression ex) 0")
      case None
      then obtain msg where "evalLoop w (expression ex) [] = Inl (ParseException msg)"
        using evalLoop_fresh [where ts = "expression ex" and w = w] by (simp only: option.case) blast
      then have "e = ParseException msg" using Inl by (simp only: sum.inject)
      then show ?thesis by (simp only: error.distinct simp_thms)
    next
      case (Some d)
      then obtain st' where "evalLoop w (expression ex) [] = Inr st'"
        using evalLoop_fresh [where ts = "expression ex" and w = w] by (simp only: option.case) blast
      then show ?thesis using Inl by (simp only: sum.distinct)
    qed
    moreover have "calculateValueOfExpression ex w = Inl e"
      by (simp only: calculateValueOfExpression_def Inr assms Inl sum.case)
    ultimately show ?thesis by (simp only: sum.inject simp_thms)
  next
    case (Inr st')
    obtain msg r where
      "calculateValueOfExpression ex w = Inl (ParseException msg) \<or>
       calculateValueOfExpression ex w = Inr r"
    proof (cases "length st' > 1")
      case True
      then have "calculateValueOfExpression ex w = Inl (ParseException ''Too much operands'')"
        by (simp only: calculateValueOfExpression_def \<open>checkWord w = Inr u\<close> assms Inr
              sum.case if_True)
      then show ?thesis using that by blast
    next
      case False
      show ?thesis
      proof (cases "length st' < 1")
        case True
        then have "calculateValueOfExpression ex w = Inl (ParseException ''Missing operands'')"
          using False
          by (simp only: calculateValueOfExpression_def \<open>checkWord w = Inr u\<close> assms Inr
                sum.case if_True if_False)
        then show ?thesis using that by blast
      next
        case F2: False
        then have "calculateValueOfExpression ex w = Inr (hd st')"
          using False
          by (simp only: calculateValueOfExpression_def \<open>checkWord w = Inr u\<close> assms Inr
                sum.case if_False)
        then show ?thesis using that by blast
      qed
    qed
    then show ?thesis by (auto simp only: sum.inject sum.distinct error.distinct)
  qed
qed

subsection \<open>The search loops\<close>

lemma trialMatches_iff:
  "trialMatches ex w =
     (\<exists>r. calculateValueOfExpression ex w = Inr r \<and> isWordEqualToSomeSubstringInLanguage r)"
  by (cases "calculateValueOfExpression ex w") (simp_all add: trialMatches_def)

lemma substr_nonempty:
  "i < length word \<Longrightarrow> 1 \<le> len \<Longrightarrow> take len (drop i word) \<noteq> []"
  by auto

lemma substr_alphabet:
  "set word \<subseteq> A \<Longrightarrow> set (take len (drop i word)) \<subseteq> A"
  by (meson set_drop_subset set_take_subset subset_trans)

lemma fold_max:
  "fold (\<lambda>x a. if P x then max a x else a) xs (a0::nat) =
     max a0 (Max (insert 0 {x \<in> set xs. P x}))"
proof (induction xs arbitrary: a0)
  case Nil
  then show ?case by simp
next
  case (Cons x xs)
  let ?S = "{y \<in> set xs. P y}"
  have fin: "finite (insert 0 ?S)" by simp
  show ?case
  proof (cases "P x")
    case True
    then have eq: "{y \<in> set (x # xs). P y} = insert x ?S" by auto
    have "Max (insert 0 (insert x ?S)) = Max (insert x (insert 0 ?S))"
      by (simp only: insert_commute)
    also have "\<dots> = max x (Max (insert 0 ?S))"
      by (rule Max_insert) (use fin in auto)
    finally have m: "Max (insert 0 (insert x ?S)) = max x (Max (insert 0 ?S))" .
    have "fold (\<lambda>x a. if P x then max a x else a) (x # xs) a0 =
          max (max a0 x) (Max (insert 0 ?S))"
      using True by (simp add: Cons.IH)
    also have "\<dots> = max a0 (Max (insert 0 (insert x ?S)))"
      by (simp only: m max.assoc)
    finally show ?thesis by (simp only: eq)
  next
    case False
    then have eq: "{y \<in> set (x # xs). P y} = ?S" by auto
    have "fold (\<lambda>x a. if P x then max a x else a) (x # xs) a0 =
          max a0 (Max (insert 0 ?S))"
      using False by (simp add: Cons.IH)
    then show ?thesis by (simp only: eq)
  qed
qed

lemma fold_fold_max:
  "fold (\<lambda>i. fold (\<lambda>len a. if M i len then max a len else a) (ls i)) is (a0::nat) =
     max a0 (Max (insert 0 {len. \<exists>i\<in>set is. len \<in> set (ls i) \<and> M i len}))"
proof (induction "is" arbitrary: a0)
  case Nil
  then show ?case by simp
next
  case (Cons i "is")
  let ?S = "{len \<in> set (ls i). M i len}"
  let ?T = "{len. \<exists>j\<in>set is. len \<in> set (ls j) \<and> M j len}"
  have finT: "finite ?T"
  proof (rule finite_subset)
    show "?T \<subseteq> (\<Union>j\<in>set is. set (ls j))" by auto
  qed simp
  have eq: "{len. \<exists>j\<in>set (i # is). len \<in> set (ls j) \<and> M j len} = ?S \<union> ?T" by auto
  have m: "Max (insert 0 (?S \<union> ?T)) = max (Max (insert 0 ?S)) (Max (insert 0 ?T))"
  proof -
    have "insert 0 (?S \<union> ?T) = insert 0 ?S \<union> insert 0 ?T" by auto
    moreover have "Max (insert 0 ?S \<union> insert 0 ?T) =
        max (Max (insert 0 ?S)) (Max (insert 0 ?T))"
      by (rule Max_Un) (use finT in auto)
    ultimately show ?thesis by (simp only:)
  qed
  have "fold (\<lambda>i. fold (\<lambda>len a. if M i len then max a len else a) (ls i)) (i # is) a0 =
        max (max a0 (Max (insert 0 ?S))) (Max (insert 0 ?T))"
    by (simp only: fold_simps Cons.IH fold_max)
  also have "\<dots> = max a0 (Max (insert 0 (?S \<union> ?T)))"
    by (simp only: m max.assoc)
  finally show ?case by (simp only: eq)
qed

lemma solve_fold:
  assumes "wellFormedPostfix (expression expr)" and "operands expr = []"
    and "word \<noteq> []" and "set word \<subseteq> {CHR ''a'', CHR ''b'', CHR ''c''}"
  shows "solve expr word =
           Inr (fold (\<lambda>i. fold (\<lambda>len a. if trialMatches expr (take len (drop i word))
                                           then max a len else a)
                                [1..<length word - i + 1])
                     [0..<length word] 0)"
  unfolding solve_def
proof (rule forEach_total)
  fix i answer
  assume i: "i \<in> set [0..<length word]"
  show "forEach [1..<length word - i + 1]
          (\<lambda>len answer.
             let toCheck = take len (drop i word); bufferExpression = expr
             in case calculateValueOfExpression bufferExpression toCheck of
                  Inl e \<Rightarrow> Inl e
                | Inr result \<Rightarrow>
                    Inr (if isWordEqualToSomeSubstringInLanguage result
                         then max answer len else answer))
          answer =
        Inr (fold (\<lambda>len a. if trialMatches expr (take len (drop i word))
                            then max a len else a)
                  [1..<length word - i + 1] answer)"
  proof (rule forEach_total)
    fix len a
    assume len: "len \<in> set [1..<length word - i + 1]"
    have ne: "take len (drop i word) \<noteq> []"
      using i len by (intro substr_nonempty) auto
    have al: "set (take len (drop i word)) \<subseteq> {CHR ''a'', CHR ''b'', CHR ''c''}"
      using assms(4) by (rule substr_alphabet)
    from calculateValue_wellFormed [OF assms(1,2) ne al] obtain r where
      r: "calculateValueOfExpression expr (take len (drop i word)) = Inr r" ..
    show "(let toCheck = take len (drop i word); bufferExpression = expr
           in case calculateValueOfExpression bufferExpression toCheck of
                Inl e \<Rightarrow> Inl e
              | Inr result \<Rightarrow>
                  Inr (if isWordEqualToSomeSubstringInLanguage result
                       then max a len else a)) =
          Inr (if trialMatches expr (take len (drop i word)) then max a len else a)"
      by (simp add: Let_def r trialMatches_def)
  qed
qed

lemma substring_window:
  "(\<exists>i<length word. 1 \<le> len \<and> len \<le> length word - i \<and> Q (take len (drop i word))) =
   (\<exists>W. length W = len \<and> W \<noteq> [] \<and> (\<exists>ps ss. word = ps @ W @ ss) \<and> Q W)"
proof
  assume "\<exists>i<length word. 1 \<le> len \<and> len \<le> length word - i \<and> Q (take len (drop i word))"
  then obtain i where i: "i < length word" "1 \<le> len" "len \<le> length word - i"
    "Q (take len (drop i word))" by blast
  let ?W = "take len (drop i word)"
  have "length ?W = len" using i by simp
  moreover have "?W \<noteq> []" using i by auto
  moreover have "word = take i word @ ?W @ drop len (drop i word)"
    by (metis append_take_drop_id)
  ultimately show "\<exists>W. length W = len \<and> W \<noteq> [] \<and> (\<exists>ps ss. word = ps @ W @ ss) \<and> Q W"
    using i(4) by blast
next
  assume "\<exists>W. length W = len \<and> W \<noteq> [] \<and> (\<exists>ps ss. word = ps @ W @ ss) \<and> Q W"
  then obtain W ps ss where W: "length W = len" "W \<noteq> []" "word = ps @ W @ ss" "Q W"
    by blast
  have "0 < length W" using W(2) by simp
  then have "length ps < length word" using W(3) by simp
  moreover have "1 \<le> len" using W by (cases W) auto
  moreover have "len \<le> length word - length ps" using W by simp
  moreover have "take len (drop (length ps) word) = W" using W by simp
  ultimately show
    "\<exists>i<length word. 1 \<le> len \<and> len \<le> length word - i \<and> Q (take len (drop i word))"
    using W(4) by blast
qed

text \<open>
  Claim C1.  For a well-formed postfix expression (as \<open>readExpression\<close> leaves it,
  with an empty stack) and a non-empty word over \<open>a\<close>, \<open>b\<close>, \<open>c\<close>,
  \<open>Solver::solve\<close> returns the greatest length of a contiguous non-empty substring
  \<open>W\<close> of the word whose evaluation (with \<open>W\<close> as reference string) yields
  \<open>matchesWholeW = true\<close>, and 0 when there is none.
\<close>

theorem solve_longest_matching_substring:
  assumes "wellFormedPostfix (expression expr)" and "operands expr = []"
    and "word \<noteq> []" and "set word \<subseteq> {CHR ''a'', CHR ''b'', CHR ''c''}"
  shows "solve expr word =
           Inr (Max (insert 0
             {length W | W. W \<noteq> [] \<and> (\<exists>ps ss. word = ps @ W @ ss) \<and>
                (\<exists>r. calculateValueOfExpression expr W = Inr r \<and>
                     isWordEqualToSomeSubstringInLanguage r)}))"
proof -
  have mem: "(len \<in> set [1..<length word - i + 1]) = (1 \<le> len \<and> len \<le> length word - i)"
    for len i by auto
  have bex: "(\<exists>i\<in>set [0..<length word]. R i) = (\<exists>i<length word. R i)" for R
    by auto
  have "{len. \<exists>i\<in>set [0..<length word]. len \<in> set [1..<length word - i + 1] \<and>
               trialMatches expr (take len (drop i word))} =
        {len. \<exists>i<length word. 1 \<le> len \<and> len \<le> length word - i \<and>
               trialMatches expr (take len (drop i word))}"
    by (simp only: mem bex conj_assoc)
  also have "\<dots> = {len. \<exists>W. length W = len \<and> W \<noteq> [] \<and> (\<exists>ps ss. word = ps @ W @ ss) \<and>
                          trialMatches expr W}"
    by (simp only: substring_window)
  also have "\<dots> = {length W | W. W \<noteq> [] \<and> (\<exists>ps ss. word = ps @ W @ ss) \<and>
                (\<exists>r. calculateValueOfExpression expr W = Inr r \<and>
                     isWordEqualToSomeSubstringInLanguage r)}"
    by (auto simp: trialMatches_iff)
  finally show ?thesis
    by (simp only: solve_fold [OF assms] fold_fold_max max_0L)
qed

lemma solve_aborts:
  assumes "c \<in> set word" and "c \<notin> {CHR ''a'', CHR ''b'', CHR ''c''}"
  shows "\<exists>e. solve expr word = Inl e"
  unfolding solve_def
proof (rule forEach_fails [where x = 0])
  show "0 \<in> set [0..<length word]" using assms(1) by (cases word) auto
next
  fix answer
  from assms(1) obtain j where j: "j < length word" "word ! j = c"
    by (auto simp: in_set_conv_nth)
  show "\<exists>e. forEach [1..<length word - 0 + 1]
          (\<lambda>len answer.
             let toCheck = take len (drop 0 word); bufferExpression = expr
             in case calculateValueOfExpression bufferExpression toCheck of
                  Inl e \<Rightarrow> Inl e
                | Inr result \<Rightarrow>
                    Inr (if isWordEqualToSomeSubstringInLanguage result
                         then max answer len else answer))
          answer = Inl e"
  proof (rule forEach_fails [where x = "Suc j"])
    show "Suc j \<in> set [1..<length word - 0 + 1]" using j by auto
  next
    fix a
    have "c \<in> set (take (Suc j) (drop 0 word))"
      using j by (auto simp: in_set_conv_nth intro!: exI [of _ j])
    from calculateValue_bad_word [OF this assms(2)] obtain msg where
      "calculateValueOfExpression expr (take (Suc j) (drop 0 word)) = Inl (ParseException msg)"
      by blast
    then have "(let toCheck = take (Suc j) (drop 0 word); bufferExpression = expr
            in case calculateValueOfExpression bufferExpression toCheck of
                 Inl e \<Rightarrow> Inl e
               | Inr result \<Rightarrow>
                   Inr (if isWordEqualToSomeSubstringInLanguage result
                        then max a (Suc j) else a)) = Inl (ParseException msg)"
      by (simp only: Let_def sum.case)
    then show "\<exists>e. (let toCheck = take (Suc j) (drop 0 word); bufferExpression = expr
            in case calculateValueOfExpression bufferExpression toCheck of
                 Inl e \<Rightarrow> Inl e
               | Inr result \<Rightarrow>
                   Inr (if isWordEqualToSomeSubstringInLanguage result
                        then max a (Suc j) else a)) = Inl e" ..
  qed
qed

lemma solve_no_assert:
  assumes "operands expr = []"
  shows "solve expr word \<noteq> Inl AssertionFailure"
proof
  assume "solve expr word = Inl AssertionFailure"
  then obtain i s where
    "forEach [1..<length word - i + 1]
       (\<lambda>len answer.
          let toCheck = take len (drop i word); bufferExpression = expr
          in case calculateValueOfExpression bufferExpression toCheck of
               Inl e \<Rightarrow> Inl e
             | Inr result \<Rightarrow>
                 Inr (if isWordEqualToSomeSubstringInLanguage result
                      then max answer len else answer))
       s = Inl AssertionFailure"
    unfolding solve_def by (blast dest: forEach_error_source)
  then obtain len a where
    "(let toCheck = take len (drop i word); bufferExpression = expr
      in case calculateValueOfExpression bufferExpression toCheck of
           Inl e \<Rightarrow> Inl e
         | Inr result \<Rightarrow>
             Inr (if isWordEqualToSomeSubstringInLanguage result
                  then max a len else a)) = Inl AssertionFailure"
    by (blast dest: forEach_error_source)
  then have "calculateValueOfExpression expr (take len (drop i word)) = Inl AssertionFailure"
    by (cases "calculateValueOfExpression expr (take len (drop i word))")
       (auto simp only: Let_def sum.case)
  then show False using calculateValue_no_assert [OF assms] by blast
qed

theorem solve_longest_matching_substring_witness:
  "wellFormedPostfix (expression \<lparr>operands = [], expression = ''ab.''\<rparr>) \<and>
   operands \<lparr>operands = [], expression = ''ab.''\<rparr> = [] \<and>
   ''cabc'' \<noteq> [] \<and>
   set ''cabc'' \<subseteq> {CHR ''a'', CHR ''b'', CHR ''c''} \<and>
   Max (insert 0
     {length W | W. W \<noteq> [] \<and> (\<exists>ps ss. ''cabc'' = ps @ W @ ss) \<and>
        (\<exists>r. calculateValueOfExpression \<lparr>operands = [], expression = ''ab.''\<rparr> W = Inr r \<and>
             isWordEqualToSomeSubstringInLanguage r)}) = 2"
proof -
  have h1: "wellFormedPostfix (expression \<lparr>operands = [], expression = ''ab.''\<rparr>)"
    by code_simp
  have h2: "operands \<lparr>operands = [], expression = ''ab.''\<rparr> = []" by simp
  have h3: "''cabc'' \<noteq> []" by simp
  have h4: "set ''cabc'' \<subseteq> {CHR ''a'', CHR ''b'', CHR ''c''}" by simp
  have s: "solve \<lparr>operands = [], expression = ''ab.''\<rparr> ''cabc'' = Inr 2" by code_simp
  have "Inr (Max (insert 0
     {length W | W. W \<noteq> [] \<and> (\<exists>ps ss. ''cabc'' = ps @ W @ ss) \<and>
        (\<exists>r. calculateValueOfExpression \<lparr>operands = [], expression = ''ab.''\<rparr> W = Inr r \<and>
             isWordEqualToSomeSubstringInLanguage r)})) = (Inr 2 :: error + nat)"
    by (rule trans [OF solve_longest_matching_substring [OF h1 h2 h3 h4, symmetric] s])
  then have "Max (insert 0
     {length W | W. W \<noteq> [] \<and> (\<exists>ps ss. ''cabc'' = ps @ W @ ss) \<and>
        (\<exists>r. calculateValueOfExpression \<lparr>operands = [], expression = ''ab.''\<rparr> W = Inr r \<and>
             isWordEqualToSomeSubstringInLanguage r)}) = 2"
    by (simp only: sum.inject)
  then show ?thesis using h1 h2 h3 h4 by (intro conjI)
qed

subsection \<open>The order of the trials\<close>

lemma forEach_append:
  "forEach (xs @ ys) body s =
     (case forEach xs body s of Inl e \<Rightarrow> Inl e | Inr s' \<Rightarrow> forEach ys body s')"
proof (induction xs arbitrary: s)
  case Nil
  then show ?case by simp
next
  case (Cons x xs)
  then show ?case by (cases "body x s") simp_all
qed

lemma forEach_pairs:
  "forEach (map (Pair i) ls) (\<lambda>p. b (fst p) (snd p)) s = forEach ls (b i) s"
proof (induction ls arbitrary: s)
  case Nil
  then show ?case by simp
next
  case (Cons l ls)
  then show ?case by (cases "b i l s") simp_all
qed

lemma forEach_nested:
  "forEach is (\<lambda>i. forEach (ls i) (b i)) s =
     forEach (concat (map (\<lambda>i. map (Pair i) (ls i)) is)) (\<lambda>p. b (fst p) (snd p)) s"
proof (induction "is" arbitrary: s)
  case Nil
  then show ?case by simp
next
  case (Cons i "is")
  show ?case
    by (cases "forEach (ls i) (b i) s") (simp_all add: forEach_append forEach_pairs Cons.IH)
qed

lemma forEach_first_failure:
  assumes body: "\<And>x s. body x s = (case F x of Inl e \<Rightarrow> Inl e | Inr r \<Rightarrow> Inr (g x r s))"
    and fails: "forEach xs body s = Inl e"
  shows "\<exists>pre x post. xs = pre @ x # post \<and> (\<forall>y\<in>set pre. \<exists>r. F y = Inr r) \<and> F x = Inl e"
  using fails
proof (induction xs arbitrary: s)
  case Nil
  then show ?case by simp
next
  case (Cons y ys)
  show ?case
  proof (cases "F y")
    case (Inl e')
    then have "body y s = Inl e'" by (simp add: body)
    then have "e' = e" using Cons.prems by simp
    then have "y # ys = [] @ y # ys \<and> (\<forall>z\<in>set []. \<exists>r. F z = Inr r) \<and> F y = Inl e"
      using Inl by simp
    then show ?thesis by blast
  next
    case (Inr r)
    then have "body y s = Inr (g y r s)" by (simp add: body)
    then have "forEach ys body (g y r s) = Inl e" using Cons.prems by simp
    then obtain pre x post where
      split: "ys = pre @ x # post" "\<forall>z\<in>set pre. \<exists>r. F z = Inr r" "F x = Inl e"
      using Cons.IH by blast
    have "y # ys = (y # pre) @ x # post \<and> (\<forall>z\<in>set (y # pre). \<exists>r. F z = Inr r) \<and> F x = Inl e"
      using split Inr by simp
    then show ?thesis by blast
  qed
qed

lemma trials_pairs:
  "trials word =
     map (\<lambda>p. take (snd p) (drop (fst p) word))
       (concat (map (\<lambda>i. map (Pair i) [1..<length word - i + 1]) [0..<length word]))"
  by (simp add: trials_def map_concat comp_def del: upt_Suc)

lemma solve_first_failure:
  assumes "solve expr word = Inl e"
  shows "\<exists>pre w post. trials word = pre @ w # post \<and>
           (\<forall>t\<in>set pre. \<exists>r. calculateValueOfExpression expr t = Inr r) \<and>
           calculateValueOfExpression expr w = Inl e"
proof -
  let ?pairs = "concat (map (\<lambda>i. map (Pair i) [1..<length word - i + 1]) [0..<length word])"
  let ?F = "\<lambda>p. calculateValueOfExpression expr (take (snd p) (drop (fst p) word))"
  let ?body = "\<lambda>p answer.
      let toCheck = take (snd p) (drop (fst p) word); bufferExpression = expr
      in case calculateValueOfExpression bufferExpression toCheck of
           Inl e \<Rightarrow> Inl e
         | Inr result \<Rightarrow>
             Inr (if isWordEqualToSomeSubstringInLanguage result
                  then max answer (snd p) else answer)"
  have "solve expr word = forEach ?pairs ?body 0"
    unfolding solve_def by (rule forEach_nested)
  then have f: "forEach ?pairs ?body 0 = Inl e" using assms by simp
  have b: "?body p s =
      (case ?F p of Inl e \<Rightarrow> Inl e
       | Inr r \<Rightarrow> Inr (if isWordEqualToSomeSubstringInLanguage r then max s (snd p) else s))"
    for p s by (simp only: Let_def)
  from forEach_first_failure [where body = ?body and F = ?F, OF b f]
  obtain pre x post where
    split: "?pairs = pre @ x # post" "\<forall>y\<in>set pre. \<exists>r. ?F y = Inr r" "?F x = Inl e"
    by blast
  let ?t = "\<lambda>p. take (snd p) (drop (fst p) word)"
  have "trials word = map ?t pre @ ?t x # map ?t post"
    by (simp only: trials_pairs split(1) map_append list.map)
  moreover have "\<forall>t\<in>set (map ?t pre). \<exists>r. calculateValueOfExpression expr t = Inr r"
    using split(2) by auto
  ultimately show ?thesis using split(3) by blast
qed

text \<open>
  Claim C7, as stated, fails.  The candidates for the word \<open>a1\<close> are \<open>a\<close>, \<open>a1\<close>,
  \<open>1\<close>, in this order.  With the expression \<open>+\<close> the search ends with the error
  \<open>Missing operands\<close>, thrown while the first trial evaluates the expression on \<open>a\<close>,
  and not with the error for the symbol \<open>1\<close> that a check of the word before the trials
  would give.  With the expression \<open>a\<close> the first trial is evaluated to the end (and
  matches) before the second trial rejects \<open>a1\<close>.  The empty word runs no trial at all
  and returns 0 without an error.
\<close>

theorem malformed_word_counterexample:
  "trials ''a1'' = [''a'', ''a1'', ''1''] \<and>
   calculateValueOfExpression \<lparr>operands = [], expression = ''+''\<rparr> ''a1'' =
     Inl (ParseException ''Unknown symbol in word: 1'') \<and>
   calculateValueOfExpression \<lparr>operands = [], expression = ''+''\<rparr> ''a'' =
     Inl (ParseException ''Missing operands'') \<and>
   solve \<lparr>operands = [], expression = ''+''\<rparr> ''a1'' =
     Inl (ParseException ''Missing operands'') \<and>
   solve \<lparr>operands = [], expression = ''+''\<rparr> ''a1'' \<noteq>
     Inl (ParseException ''Unknown symbol in word: 1'') \<and>
   trialMatches \<lparr>operands = [], expression = ''a''\<rparr> ''a'' \<and>
   solve \<lparr>operands = [], expression = ''a''\<rparr> ''a1'' =
     Inl (ParseException ''Unknown symbol in word: 1'') \<and>
   solve \<lparr>operands = [], expression = ''a''\<rparr> [] = Inr 0"
  by code_simp

text \<open>
  Claim C7, amended.  For every non-empty word containing a character outside
  \<open>{a, b, c}\<close> (the epsilon symbol included), \<open>solve\<close> on a freshly read expression aborts
  with a \<open>ParseException\<close> and returns no length.  The word is not checked before the
  trials: the error is the one thrown by the first candidate, in the order of enumeration,
  whose evaluation fails, and every candidate before it has been evaluated to the end.
  Within a trial, \<open>calculateValueOfExpression\<close> rejects a reference string that
  contains such a character, or is empty, with an error that does not depend on the
  expression, that is, before any token is evaluated.
\<close>

theorem malformed_word_rejected:
  assumes "operands expr = []" and "c \<in> set word"
    and "c \<notin> {CHR ''a'', CHR ''b'', CHR ''c''}"
  shows "(\<exists>pre w post msg.
            trials word = pre @ w # post \<and>
            (\<forall>t\<in>set pre. \<exists>r. calculateValueOfExpression expr t = Inr r) \<and>
            calculateValueOfExpression expr w = Inl (ParseException msg) \<and>
            solve expr word = Inl (ParseException msg)) \<and>
         (\<exists>msg. \<forall>ex. calculateValueOfExpression ex word = Inl (ParseException msg)) \<and>
         (\<exists>msg. \<forall>ex. calculateValueOfExpression ex [] = Inl (ParseException msg))"
proof (intro conjI)
  from solve_aborts [OF assms(2,3)] obtain e where e: "solve expr word = Inl e" ..
  have "e \<noteq> AssertionFailure" using solve_no_assert [OF assms(1), of word] e by auto
  then obtain msg where msg: "e = ParseException msg" by (cases e) auto
  from solve_first_failure [OF e] obtain pre w post where
    "trials word = pre @ w # post"
    "\<forall>t\<in>set pre. \<exists>r. calculateValueOfExpression expr t = Inr r"
    "calculateValueOfExpression expr w = Inl e"
    by blast
  then show "\<exists>pre w post msg.
            trials word = pre @ w # post \<and>
            (\<forall>t\<in>set pre. \<exists>r. calculateValueOfExpression expr t = Inr r) \<and>
            calculateValueOfExpression expr w = Inl (ParseException msg) \<and>
            solve expr word = Inl (ParseException msg)"
    using e msg by blast
next
  show "\<exists>msg. \<forall>ex. calculateValueOfExpression ex word = Inl (ParseException msg)"
    by (rule calculateValue_bad_word [OF assms(2,3)])
next
  show "\<exists>msg. \<forall>ex. calculateValueOfExpression ex [] = Inl (ParseException msg)"
    by (rule calculateValue_empty_word)
qed

theorem malformed_word_rejected_witness:
  "operands \<lparr>operands = [], expression = ''+''\<rparr> = [] \<and>
   CHR ''1'' \<in> set ''a1'' \<and>
   CHR ''1'' \<notin> {CHR ''a'', CHR ''b'', CHR ''c''} \<and>
   (\<exists>pre w post msg.
      trials ''a1'' = pre @ w # post \<and>
      (\<forall>t\<in>set pre. \<exists>r. calculateValueOfExpression \<lparr>operands = [], expression = ''+''\<rparr> t = Inr r) \<and>
      calculateValueOfExpression \<lparr>operands = [], expression = ''+''\<rparr> w =
        Inl (ParseException msg) \<and>
      solve \<lparr>operands = [], expression = ''+''\<rparr> ''a1'' = Inl (ParseException msg))"
proof -
  have h1: "operands \<lparr>operands = [], expression = ''+''\<rparr> = []" by simp
  have h2: "CHR ''1'' \<in> set ''a1''" by simp
  have h3: "CHR ''1'' \<notin> {CHR ''a'', CHR ''b'', CHR ''c''}" by simp
  from malformed_word_rejected [OF h1 h2 h3] have
    "\<exists>pre w post msg.
      trials ''a1'' = pre @ w # post \<and>
      (\<forall>t\<in>set pre. \<exists>r. calculateValueOfExpression \<lparr>operands = [], expression = ''+''\<rparr> t = Inr r) \<and>
      calculateValueOfExpression \<lparr>operands = [], expression = ''+''\<rparr> w =
        Inl (ParseException msg) \<and>
      solve \<lparr>operands = [], expression = ''+''\<rparr> ''a1'' = Inl (ParseException msg)"
    by (rule conjunct1)
  then show ?thesis using h1 h2 h3 by (intro conjI)
qed

text \<open>
  Claim C8, as stated, fails: \<open>x\<close> and \<open>y\<close> are outside the alphabet, so the first trial
  already throws and \<open>solve\<close> returns no length for the word \<open>xaby\<close>.
\<close>

theorem solve_xaby_counterexample:
  "solve \<lparr>operands = [], expression = ''ab.''\<rparr> ''xaby'' \<noteq> Inr 2"
  by code_simp

text \<open>
  Claim C8, amended.  For the expression \<open>ab.\<close> and the word \<open>xaby\<close> the search aborts
  with the malformed-input error for the symbol \<open>x\<close>; for the word \<open>cabc\<close>, which is over
  the alphabet, it returns 2 (the substring \<open>ab\<close>).
\<close>

theorem solve_ab_concat_scenario:
  "solve \<lparr>operands = [], expression = ''ab.''\<rparr> ''xaby'' =
     Inl (ParseException ''Unknown symbol in word: x'') \<and>
   solve \<lparr>operands = [], expression = ''ab.''\<rparr> ''cabc'' = Inr 2"
  by code_simp

end
